theory Spec2Isabelle
  imports Main
begin

section \<open>Python values used by the shell\<close>

text \<open>
  The exceptions of \<^verbatim>\<open>app/main.py\<close> that the model keeps as values.
  \<open>SystemExit n\<close> is what \<^verbatim>\<open>sys.exit(n)\<close> raises; \<open>IndexError\<close> is what
  \<^verbatim>\<open>t.split(sep, 1)[1]\<close> raises when \<open>sep\<close> does not occur in \<open>t\<close>;
  \<open>OSError e\<close> is what \<^verbatim>\<open>os.getcwd()\<close> raises, with the text of the exception.
\<close>

datatype exn = SystemExit int | IndexError | OSError string

text \<open>\<^verbatim>\<open>t.startswith(p)\<close>.\<close>

definition startswith :: "string \<Rightarrow> string \<Rightarrow> bool" where
  "startswith t p = (take (length p) t = p)"

text \<open>
  \<^verbatim>\<open>t.split(sep, 1)[1]\<close> for a non-empty \<open>sep\<close>: the text after the first occurrence
  of \<open>sep\<close>; \<open>None\<close> stands for the IndexError of indexing the one-element
  list that \<^verbatim>\<open>split\<close> returns when \<open>sep\<close> does not occur.
\<close>

fun split1_tail :: "string \<Rightarrow> string \<Rightarrow> string option" where
  "split1_tail sep [] = (if startswith [] sep then Some [] else None)"
| "split1_tail sep (c # cs) =
     (if startswith (c # cs) sep then Some (drop (length sep) (c # cs))
      else split1_tail sep cs)"

text \<open>Python's \<^verbatim>\<open>a or b\<close> on a string \<open>a\<close> and an optional string \<open>b\<close>.\<close>

definition py_or :: "string \<Rightarrow> string option \<Rightarrow> string option" where
  "py_or a b = (if a \<noteq> [] then Some a else b)"

section \<open>Redirection parser\<close>

text \<open>
  A redirection spec is the tuple \<^verbatim>\<open>(fname, mode)\<close>; \<open>fname\<close> may be Python's
  \<^verbatim>\<open>None\<close>. The variables that live across iterations of the scanning loop of
  \<^verbatim>\<open>parse_redirections\<close> form the record \<open>pstate\<close>.
\<close>

type_synonym rinfo = "string option \<times> string"

record pstate =
  stdout_info :: "rinfo option"
  stderr_info :: "rinfo option"
  stdin_info :: "rinfo option"
  cleaned :: "string list"
  idx :: nat

definition pstate_init :: pstate where
  "pstate_init = \<lparr>stdout_info = None, stderr_info = None, stdin_info = None,
                   cleaned = [], idx = 0\<rparr>"

text \<open>The local function \<^verbatim>\<open>next_token\<close>.\<close>

definition next_token :: "string list \<Rightarrow> nat \<Rightarrow> string option" where
  "next_token tokens i = (if i + 1 < length tokens then Some (tokens ! (i + 1)) else None)"

text \<open>\<^verbatim>\<open>advance = 1 if not rest else 0\<close>.\<close>

definition advance_of :: "string \<Rightarrow> nat" where
  "advance_of rest = (if rest = [] then 1 else 0)"

definition bare_operators :: "string list" where
  "bare_operators = [''>'', ''>>'', ''1>'', ''1>>'', ''2>'', ''2>>'', ''<'']"

text \<open>
  The arm under the comment \<^verbatim>\<open># Separate tokens\<close>: the chain of tests on \<open>t\<close>, then
  \<^verbatim>\<open>handled = True; advance = 1\<close>.
\<close>

definition separate_arm :: "string list \<Rightarrow> string \<Rightarrow> pstate \<Rightarrow> pstate" where
  "separate_arm tokens t s =
     (let fname = next_token tokens (idx s);
          s1 = (if t \<in> set [''>'', ''1>''] then s\<lparr>stdout_info := Some (fname, ''w'')\<rparr>
                else if t \<in> set [''>>'', ''1>>''] then s\<lparr>stdout_info := Some (fname, ''a'')\<rparr>
                else if t = ''2>'' then s\<lparr>stderr_info := Some (fname, ''w'')\<rparr>
                else if t = ''2>>'' then s\<lparr>stderr_info := Some (fname, ''a'')\<rparr>
                else if t = ''<'' then s\<lparr>stdin_info := Some (fname, ''r'')\<rparr>
                else s)
      in s1\<lparr>idx := idx s + 1 + 1\<rparr>)"

text \<open>
  One iteration of the \<^verbatim>\<open>while i < len(tokens)\<close> loop, entered with
  \<open>idx s < length tokens\<close>. The parameter \<open>sep_arm\<close> says whether the
  \<^verbatim>\<open># Separate tokens\<close> arm is present; the source is \<open>sep_arm = True\<close>.
\<close>

definition loop_body_gen :: "bool \<Rightarrow> string list \<Rightarrow> pstate \<Rightarrow> exn + pstate" where
  "loop_body_gen sep_arm tokens s =
     (let t = tokens ! idx s in
      if startswith t ''1>>'' \<or> startswith t ''>>'' then
        (case split1_tail ''>>'' t of
           None \<Rightarrow> Inl IndexError
         | Some rest \<Rightarrow>
             Inr (s\<lparr>stdout_info := Some (py_or rest (next_token tokens (idx s)), ''a''),
                    idx := idx s + 1 + advance_of rest\<rparr>))
      else if startswith t ''1>'' \<or> startswith t ''>'' then
        (case split1_tail ''>'' t of
           None \<Rightarrow> Inl IndexError
         | Some rest \<Rightarrow>
             Inr (s\<lparr>stdout_info := Some (py_or rest (next_token tokens (idx s)), ''w''),
                    idx := idx s + 1 + advance_of rest\<rparr>))
      else if startswith t ''2>>'' then
        Inr (s\<lparr>stderr_info := Some (py_or (drop 3 t) (next_token tokens (idx s)), ''a''),
               idx := idx s + 1 + advance_of (drop 3 t)\<rparr>)
      else if startswith t ''2>'' then
        Inr (s\<lparr>stderr_info := Some (py_or (drop 2 t) (next_token tokens (idx s)), ''w''),
               idx := idx s + 1 + advance_of (drop 2 t)\<rparr>)
      else if startswith t ''<'' then
        Inr (s\<lparr>stdin_info := Some (py_or (drop 1 t) (next_token tokens (idx s)), ''r''),
               idx := idx s + 1 + advance_of (drop 1 t)\<rparr>)
      else if sep_arm \<and> t \<in> set bare_operators then
        Inr (separate_arm tokens t s)
      else
        Inr (s\<lparr>cleaned := cleaned s @ [t], idx := idx s + 1\<rparr>))"

abbreviation loop_body :: "string list \<Rightarrow> pstate \<Rightarrow> exn + pstate" where
  "loop_body \<equiv> loop_body_gen True"

function scan_loop_gen :: "bool \<Rightarrow> string list \<Rightarrow> pstate \<Rightarrow> exn + pstate" where
  "scan_loop_gen b tokens s =
     (if idx s < length tokens then
        (case loop_body_gen b tokens s of
           Inl e \<Rightarrow> Inl e
         | Inr s' \<Rightarrow> scan_loop_gen b tokens s')
      else Inr s)"
  by pat_completeness auto
termination
proof (relation "measure (\<lambda>(b, tokens, s). length tokens - idx s)")
  show "wf (measure (\<lambda>(b, tokens, s). length tokens - idx s))"
    by simp
next
  fix b :: bool and tokens :: "string list" and s s' :: pstate
  assume "idx s < length tokens" and "loop_body_gen b tokens s = Inr s'"
  then show "((b, tokens, s'), (b, tokens, s)) \<in> measure (\<lambda>(b, tokens, s). length tokens - idx s)"
    by (auto simp: loop_body_gen_def separate_arm_def advance_of_def Let_def
          split: if_splits option.splits)
qed

declare scan_loop_gen.simps [simp del]

text \<open>The number of iterations the loop runs from state \<open>s\<close> (a ghost counter).\<close>

function scan_iterations :: "string list \<Rightarrow> pstate \<Rightarrow> nat" where
  "scan_iterations tokens s =
     (if idx s < length tokens then
        (case loop_body tokens s of
           Inl e \<Rightarrow> 1
         | Inr s' \<Rightarrow> 1 + scan_iterations tokens s')
      else 0)"
  by pat_completeness auto
termination
proof (relation "measure (\<lambda>(tokens, s). length tokens - idx s)")
  show "wf (measure (\<lambda>(tokens, s). length tokens - idx s))"
    by simp
next
  fix tokens :: "string list" and s s' :: pstate
  assume "idx s < length tokens" and "loop_body tokens s = Inr s'"
  then show "((tokens, s'), (tokens, s)) \<in> measure (\<lambda>(tokens, s). length tokens - idx s)"
    by (auto simp: loop_body_gen_def separate_arm_def advance_of_def Let_def
          split: if_splits option.splits)
qed

declare scan_iterations.simps [simp del]

text \<open>
  The validation loop after the scan: the name of the first stream, in the order
  stdout, stderr, stdin, whose spec is present with a filename that is \<^verbatim>\<open>None\<close> or
  empty.
\<close>

fun first_invalid :: "(rinfo option \<times> string) list \<Rightarrow> string option" where
  "first_invalid [] = None"
| "first_invalid ((info, name) # rest) =
     (case info of
        None \<Rightarrow> first_invalid rest
      | Some (fname, mode) \<Rightarrow>
          (if fname = None \<or> fname = Some [] then Some name else first_invalid rest))"

text \<open>
  The result of \<^verbatim>\<open>parse_redirections\<close>: the returned tuple and the lines it printed
  to standard output.
\<close>

record parsed =
  p_clean :: "string list"
  p_stdout :: "rinfo option"
  p_stderr :: "rinfo option"
  p_stdin :: "rinfo option"
  p_printed :: "string list"

definition finish_parse :: "pstate \<Rightarrow> parsed" where
  "finish_parse s =
     (case first_invalid [(stdout_info s, ''stdout''), (stderr_info s, ''stderr''),
                          (stdin_info s, ''stdin'')] of
        Some name \<Rightarrow>
          \<lparr>p_clean = cleaned s, p_stdout = None, p_stderr = None, p_stdin = None,
           p_printed = [''Error: no filename provided for '' @ name @ '' redirection'']\<rparr>
      | None \<Rightarrow>
          \<lparr>p_clean = cleaned s, p_stdout = stdout_info s, p_stderr = stderr_info s,
           p_stdin = stdin_info s, p_printed = []\<rparr>)"

definition parse_redirections_gen :: "bool \<Rightarrow> string list \<Rightarrow> exn + parsed" where
  "parse_redirections_gen b tokens =
     (case scan_loop_gen b tokens pstate_init of
        Inl e \<Rightarrow> Inl e
      | Inr s \<Rightarrow> Inr (finish_parse s))"

definition parse_redirections :: "string list \<Rightarrow> exn + parsed" where
  "parse_redirections = parse_redirections_gen True"

text \<open>The parser with the \<^verbatim>\<open># Separate tokens\<close> arm deleted.\<close>

definition parse_redirections_no_separate_arm :: "string list \<Rightarrow> exn + parsed" where
  "parse_redirections_no_separate_arm = parse_redirections_gen False"

subsection \<open>The operator forms as the specification lists them\<close>

text \<open>
  The specification's reading of a token list, used to state what the scanning loop
  computes: the recognized forms \<^verbatim>\<open>2>>\<close>, \<^verbatim>\<open>2>\<close>, \<^verbatim>\<open>1>>\<close>, \<^verbatim>\<open>>>\<close>, \<^verbatim>\<open>1>\<close>, \<^verbatim>\<open>>\<close>,
  \<^verbatim>\<open><\<close>, longest operator first, each with the text attached to it; an operator
  with no attached text takes the following token as its filename and two positions,
  and has no filename at the end of the input.
\<close>

datatype std = Stdout | Stderr | Stdin

definition spec_operator :: "string \<Rightarrow> (std \<times> string \<times> string) option" where
  "spec_operator t =
     (if startswith t ''2>>'' then Some (Stderr, ''a'', drop 3 t)
      else if startswith t ''2>'' then Some (Stderr, ''w'', drop 2 t)
      else if startswith t ''1>>'' then Some (Stdout, ''a'', drop 3 t)
      else if startswith t ''>>'' then Some (Stdout, ''a'', drop 2 t)
      else if startswith t ''1>'' then Some (Stdout, ''w'', drop 2 t)
      else if startswith t ''>'' then Some (Stdout, ''w'', drop 1 t)
      else if startswith t ''<'' then Some (Stdin, ''r'', drop 1 t)
      else None)"

text \<open>The operator occurrences of a token list, left to right, each with its spec.\<close>

fun spec_occurrences :: "string list \<Rightarrow> (std \<times> rinfo) list" where
  "spec_occurrences [] = []"
| "spec_occurrences (t # ts) =
     (case spec_operator t of
        None \<Rightarrow> spec_occurrences ts
      | Some (st, mode, attached) \<Rightarrow>
          (if attached \<noteq> [] then (st, (Some attached, mode)) # spec_occurrences ts
           else (case ts of
                   [] \<Rightarrow> [(st, (None, mode))]
                 | n # ts' \<Rightarrow> (st, (Some n, mode)) # spec_occurrences ts')))"

text \<open>The tokens that are neither an operator nor the filename of a detached one.\<close>

fun spec_clean :: "string list \<Rightarrow> string list" where
  "spec_clean [] = []"
| "spec_clean (t # ts) =
     (case spec_operator t of
        None \<Rightarrow> t # spec_clean ts
      | Some (st, mode, attached) \<Rightarrow>
          (if attached \<noteq> [] then spec_clean ts
           else (case ts of [] \<Rightarrow> [] | n # ts' \<Rightarrow> spec_clean ts')))"

text \<open>The specs of the occurrences that target stream \<open>st\<close>, left to right.\<close>

definition specs_for :: "std \<Rightarrow> (std \<times> rinfo) list \<Rightarrow> rinfo list" where
  "specs_for st occs = map snd (filter (\<lambda>occ. fst occ = st) occs)"

text \<open>Last-wins: the spec of the last occurrence for \<open>st\<close>, or \<open>prev\<close> when there is none.\<close>

definition last_wins :: "std \<Rightarrow> (std \<times> rinfo) list \<Rightarrow> rinfo option \<Rightarrow> rinfo option" where
  "last_wins st occs prev =
     (if specs_for st occs = [] then prev else Some (last (specs_for st occs)))"

subsection \<open>Specs by stream\<close>

text \<open>The spec variable of the scanning loop that belongs to a stream, read and written.\<close>

definition pinfo :: "std \<Rightarrow> pstate \<Rightarrow> rinfo option" where
  "pinfo st s =
     (case st of Stdout \<Rightarrow> stdout_info s | Stderr \<Rightarrow> stderr_info s | Stdin \<Rightarrow> stdin_info s)"

definition set_info :: "std \<Rightarrow> rinfo \<Rightarrow> pstate \<Rightarrow> pstate" where
  "set_info st r s =
     (case st of Stdout \<Rightarrow> s\<lparr>stdout_info := Some r\<rparr>
               | Stderr \<Rightarrow> s\<lparr>stderr_info := Some r\<rparr>
               | Stdin \<Rightarrow> s\<lparr>stdin_info := Some r\<rparr>)"

text \<open>The spec of a stream in the parser's result.\<close>

definition p_spec :: "std \<Rightarrow> parsed \<Rightarrow> rinfo option" where
  "p_spec st p = (case st of Stdout \<Rightarrow> p_stdout p | Stderr \<Rightarrow> p_stderr p | Stdin \<Rightarrow> p_stdin p)"

text \<open>
  One iteration as the operator table reads it: a token that is no operator is kept,
  an operator sets the spec of its stream and takes one or two positions.
\<close>

definition body_spec :: "string list \<Rightarrow> pstate \<Rightarrow> string \<Rightarrow> exn + pstate" where
  "body_spec tokens s t =
     (case spec_operator t of
        None \<Rightarrow> Inr (s\<lparr>cleaned := cleaned s @ [t], idx := idx s + 1\<rparr>)
      | Some (st, mode, attached) \<Rightarrow>
          Inr ((set_info st (py_or attached (next_token tokens (idx s)), mode) s)
                 \<lparr>idx := idx s + 1 + advance_of attached\<rparr>))"

text \<open>A spec whose filename is neither \<^verbatim>\<open>None\<close> nor empty.\<close>

definition has_filename :: "rinfo \<Rightarrow> bool" where
  "has_filename r = (fst r \<noteq> None \<and> fst r \<noteq> Some [])"

text \<open>The state the scan ends in, as far as \<open>finish_parse\<close> reads it.\<close>

definition scanned :: "string list \<Rightarrow> pstate" where
  "scanned tokens =
     \<lparr>stdout_info = last_wins Stdout (spec_occurrences tokens) None,
      stderr_info = last_wins Stderr (spec_occurrences tokens) None,
      stdin_info = last_wins Stdin (spec_occurrences tokens) None,
      cleaned = spec_clean tokens, idx = 0\<rparr>"

text \<open>
  Every stream that has an operator has a filename in its last one: the condition
  under which the validation after the scan finds nothing to report.
\<close>

definition filenames_present :: "string list \<Rightarrow> bool" where
  "filenames_present tokens =
     list_all (\<lambda>st. case last_wins st (spec_occurrences tokens) None of
                       None \<Rightarrow> True
                     | Some r \<Rightarrow> has_filename r)
       [Stdout, Stderr, Stdin]"

definition missing_filename_message :: "string \<Rightarrow> string" where
  "missing_filename_message name = ''Error: no filename provided for '' @ name @ '' redirection''"

section \<open>The shell process\<close>

text \<open>
  The state of the running interpreter that the shell reads and changes: the three
  stream bindings \<^verbatim>\<open>sys.stdout\<close>, \<^verbatim>\<open>sys.stderr\<close>, \<^verbatim>\<open>sys.stdin\<close>, the file objects that
  are open, the module-level \<^verbatim>\<open>_exec_cache\<close>, the working directory of the process
  (by the name under which the kernel reports it) and \<^verbatim>\<open>os.environ\<close>. The field \<open>trace\<close> records, in order, every effect on the world
  outside the interpreter. The model is of the shell with \<^verbatim>\<open>DEBUG\<close> unset, so
  \<^verbatim>\<open>debug(...)\<close> prints nothing; tab completion is not modelled.
\<close>

datatype stream = OrigStdout | OrigStderr | OrigStdin | FileObj nat

datatype event =
    Write stream string
  | Open nat string string
  | Close nat
  | Rebind std stream
  | Probe string
  | Chdir string
  | Call string "string list"
  | Spawn string "string list"

record shell =
  sys_stdout :: stream
  sys_stderr :: stream
  sys_stdin :: stream
  open_files :: "nat set"
  next_file :: nat
  exec_cache :: "string \<rightharpoonup> string option"
  cwd :: string
  environ :: "string \<rightharpoonup> string"
  trace :: "event list"

text \<open>
  What the operating system and the Python library answer: the file tests of
  \<^verbatim>\<open>os.path\<close> and \<^verbatim>\<open>os.access\<close>; whether \<^verbatim>\<open>open\<close> raises (with the text of the
  exception); \<^verbatim>\<open>os.chdir(p)\<close> called in working directory \<open>d\<close>, which raises or
  makes the kernel report a new working directory (its own name for the directory,
  with \<^verbatim>\<open>..\<close>, trailing slashes and symbolic links resolved); whether \<^verbatim>\<open>os.getcwd()\<close>
  raises in working directory \<open>d\<close> (it does when the directory was removed);
  \<^verbatim>\<open>os.path.expanduser\<close>; how \<^verbatim>\<open>subprocess.run\<close> ends; and \<^verbatim>\<open>int(x)\<close> on a string,
  \<open>None\<close> standing for its ValueError (its tables of Unicode digits and spaces and
  its limit on the number of digits belong to the interpreter). The answers do not
  change while the shell runs.
\<close>

datatype run_result = Returncode int | FileNotFoundError | OtherException string

record os_env =
  path_exists :: "string \<Rightarrow> bool"
  path_isfile :: "string \<Rightarrow> bool"
  path_isdir :: "string \<Rightarrow> bool"
  access_x :: "string \<Rightarrow> bool"
  open_error :: "string \<Rightarrow> string \<Rightarrow> string option"
  chdir_to :: "string \<Rightarrow> string \<Rightarrow> string + string"
  getcwd_error :: "string \<Rightarrow> string option"
  py_int :: "string \<Rightarrow> int option"
  expanduser :: "string \<Rightarrow> string"
  subprocess_run :: "string \<Rightarrow> string list \<Rightarrow> run_result"

definition emit :: "event \<Rightarrow> shell \<Rightarrow> shell" where
  "emit e s = s\<lparr>trace := trace s @ [e]\<rparr>"

definition newline :: string where
  "newline = [CHR 0x0A]"

text \<open>\<^verbatim>\<open>print(x)\<close> and \<^verbatim>\<open>print(x, file=sys.stderr)\<close>.\<close>

definition print :: "string \<Rightarrow> shell \<Rightarrow> shell" where
  "print x s = emit (Write (sys_stdout s) (x @ newline)) s"

definition print_err :: "string \<Rightarrow> shell \<Rightarrow> shell" where
  "print_err x s = emit (Write (sys_stderr s) (x @ newline)) s"

fun print_all :: "string list \<Rightarrow> shell \<Rightarrow> shell" where
  "print_all [] s = s"
| "print_all (x # xs) s = print_all xs (print x s)"

text \<open>\<^verbatim>\<open>str(n)\<close> for a length.\<close>

function show_nat :: "nat \<Rightarrow> string" where
  "show_nat n =
     (if n < 10 then [char_of (48 + n)]
      else show_nat (n div 10) @ [char_of (48 + n mod 10)])"
  by pat_completeness auto
termination
  by (relation "measure id") auto

declare show_nat.simps [simp del]

text \<open>\<^verbatim>\<open>sep.join(xs)\<close>.\<close>

fun join :: "string \<Rightarrow> string list \<Rightarrow> string" where
  "join sep [] = []"
| "join sep [x] = x"
| "join sep (x # y # ys) = x @ sep @ join sep (y # ys)"

text \<open>\<^verbatim>\<open>raw.split(sep)\<close> for a one-character separator.\<close>

fun split_char :: "char \<Rightarrow> string \<Rightarrow> string list" where
  "split_char c [] = [[]]"
| "split_char c (x # xs) =
     (if x = c then [] # split_char c xs
      else (case split_char c xs of
              [] \<Rightarrow> [[x]]
            | w # ws \<Rightarrow> (x # w) # ws))"

text \<open>\<^verbatim>\<open>os.path.isabs\<close> and \<^verbatim>\<open>os.path.join\<close> of two components, on POSIX.\<close>

definition isabs :: "string \<Rightarrow> bool" where
  "isabs p = startswith p ''/''"

definition path_join :: "string \<Rightarrow> string \<Rightarrow> string" where
  "path_join a b =
     (if startswith b ''/'' then b
      else if a = [] \<or> last a = CHR ''/'' then a @ b
      else a @ ''/'' @ b)"

text \<open>\<^verbatim>\<open>get_env\<close> and \<^verbatim>\<open>get_path_dirs\<close>.\<close>

definition get_env :: "shell \<Rightarrow> string \<Rightarrow> string \<Rightarrow> string" where
  "get_env s key dflt = (case environ s key of None \<Rightarrow> dflt | Some val \<Rightarrow> val)"

definition get_path_dirs :: "shell \<Rightarrow> string list" where
  "get_path_dirs s =
     (let raw = get_env s ''PATH'' [] in if raw \<noteq> [] then split_char (CHR '':'') raw else [])"

subsection \<open>Executable resolver\<close>

text \<open>
  The test \<^verbatim>\<open>os.path.exists(p) and os.access(p, os.X_OK) and os.path.isfile(p)\<close>;
  each evaluation is one \<open>Probe\<close> of the filesystem.
\<close>

definition executable_test :: "os_env \<Rightarrow> string \<Rightarrow> bool" where
  "executable_test os p = (path_exists os p \<and> access_x os p \<and> path_isfile os p)"

text \<open>The \<^verbatim>\<open>for d in get_path_dirs()\<close> loop; \<open>None\<close> when it falls through.\<close>

fun search_dirs :: "os_env \<Rightarrow> string list \<Rightarrow> string \<Rightarrow> shell \<Rightarrow> string option \<times> shell" where
  "search_dirs os [] name s = (None, s)"
| "search_dirs os (d # ds) name s =
     (if d = [] then search_dirs os ds name s
      else (let candidate = path_join d name; s1 = emit (Probe candidate) s in
            if executable_test os candidate then (Some candidate, s1)
            else search_dirs os ds name s1))"

definition find_executable_in_path :: "os_env \<Rightarrow> string \<Rightarrow> shell \<Rightarrow> string option \<times> shell" where
  "find_executable_in_path os name s =
     (case exec_cache s name of
        Some cached \<Rightarrow> (cached, s)
      | None \<Rightarrow>
          (if isabs name then
             (let s1 = emit (Probe name) s in
              if executable_test os name
              then (Some name, s1\<lparr>exec_cache := (exec_cache s1)(name \<mapsto> Some name)\<rparr>)
              else (None, s1))
           else
             (case search_dirs os (get_path_dirs s) name s of
                (Some candidate, s1) \<Rightarrow>
                  (Some candidate, s1\<lparr>exec_cache := (exec_cache s1)(name \<mapsto> Some candidate)\<rparr>)
              | (None, s1) \<Rightarrow>
                  (None, s1\<lparr>exec_cache := (exec_cache s1)(name \<mapsto> None)\<rparr>))))"

subsection \<open>Builtins\<close>

text \<open>
  Decimal integers in ASCII, as \<^verbatim>\<open>int(x)\<close> reads them: surrounding whitespace is
  stripped, one sign is allowed, then decimal digits with single underscores between
  digits. It is the \<open>py_int\<close> of the concrete environment below.
\<close>

definition is_space :: "char \<Rightarrow> bool" where
  "is_space c = (c \<in> set [CHR '' '', CHR 0x09, CHR 0x0A, CHR 0x0B, CHR 0x0C, CHR 0x0D])"

definition is_digit :: "char \<Rightarrow> bool" where
  "is_digit c = (48 \<le> (of_char c :: nat) \<and> (of_char c :: nat) \<le> 57)"

definition digit_val :: "char \<Rightarrow> nat" where
  "digit_val c = of_char c - 48"

fun digits_from :: "nat \<Rightarrow> string \<Rightarrow> nat option" where
  "digits_from acc [] = Some acc"
| "digits_from acc [c] = (if is_digit c then Some (10 * acc + digit_val c) else None)"
| "digits_from acc (c # d # ds) =
     (if is_digit c then digits_from (10 * acc + digit_val c) (d # ds)
      else if c = CHR ''_'' \<and> is_digit d then digits_from (10 * acc + digit_val d) ds
      else None)"

definition parse_nat :: "string \<Rightarrow> nat option" where
  "parse_nat ds =
     (case ds of
        [] \<Rightarrow> None
      | c # cs \<Rightarrow> (if is_digit c then digits_from (digit_val c) cs else None))"

definition strip :: "string \<Rightarrow> string" where
  "strip x = rev (dropWhile is_space (rev (dropWhile is_space x)))"

definition ascii_int :: "string \<Rightarrow> int option" where
  "ascii_int x =
     (case strip x of
        [] \<Rightarrow> None
      | c # cs \<Rightarrow>
          (if c = CHR ''-'' then map_option (\<lambda>n. - int n) (parse_nat cs)
           else if c = CHR ''+'' then map_option int (parse_nat cs)
           else map_option int (parse_nat (c # cs))))"

text \<open>
  A builtin takes the argument list and the process state, and returns the exception
  it raised, if any, with the new state.
\<close>

type_synonym builtin = "string list \<Rightarrow> shell \<Rightarrow> exn option \<times> shell"

definition builtin_echo :: builtin where
  "builtin_echo args s = (None, print (join '' '' args) s)"

definition builtin_exit :: "os_env \<Rightarrow> builtin" where
  "builtin_exit os args s =
     (if length args = 0 then (Some (SystemExit 0), s)
      else if length args > 1 then
        (None, print (''exit: Invalid number of arguments. Expected 1, given ''
                        @ show_nat (length args)) s)
      else (case py_int os (args ! 0) of
              None \<Rightarrow> (None, print (''exit: '' @ args ! 0 @ '': numeric argument required'') s)
            | Some code \<Rightarrow> (Some (SystemExit code), s)))"

definition builtin_names :: "string list" where
  "builtin_names = [''echo'', ''exit'', ''type'', ''pwd'', ''cd'']"

text \<open>Python's truth value of \<^verbatim>\<open>path\<close>: neither \<^verbatim>\<open>None\<close> nor the empty string.\<close>

definition truthy :: "string option \<Rightarrow> bool" where
  "truthy p = (p \<noteq> None \<and> p \<noteq> Some [])"

definition builtin_type :: "os_env \<Rightarrow> builtin" where
  "builtin_type os args s =
     (if length args \<noteq> 1 then
        (None, print (''type: Invalid number of arguments. Expected 1, given ''
                        @ show_nat (length args)) s)
      else (let target = args ! 0 in
            if target \<in> set builtin_names then (None, print (target @ '' is a shell builtin'') s)
            else (case find_executable_in_path os target s of
                    (path, s1) \<Rightarrow>
                      (if truthy path then (None, print (target @ '' is '' @ the path) s1)
                       else (None, print (target @ '': not found'') s1)))))"

text \<open>\<^verbatim>\<open>os.getcwd()\<close>: the name of the working directory, or the exception.\<close>

definition py_getcwd :: "os_env \<Rightarrow> shell \<Rightarrow> exn + string" where
  "py_getcwd os s =
     (case getcwd_error os (cwd s) of Some e \<Rightarrow> Inl (OSError e) | None \<Rightarrow> Inr (cwd s))"

definition builtin_pwd :: "os_env \<Rightarrow> builtin" where
  "builtin_pwd os args s =
     (case py_getcwd os s of Inl e \<Rightarrow> (Some e, s) | Inr d \<Rightarrow> (None, print d s))"

text \<open>
  The target that \<^verbatim>\<open>builtin_cd\<close> resolves: the argument (or \<^verbatim>\<open>HOME\<close>), with a leading
  \<^verbatim>\<open>~\<close> expanded, and joined to \<^verbatim>\<open>os.getcwd()\<close> when it is not absolute. The call of
  \<^verbatim>\<open>os.getcwd()\<close> is outside the \<^verbatim>\<open>try\<close> of \<^verbatim>\<open>builtin_cd\<close>, so its exception leaves
  the builtin.
\<close>

definition cd_target :: "os_env \<Rightarrow> string list \<Rightarrow> shell \<Rightarrow> exn + string" where
  "cd_target os args s =
     (let target0 = (if length args = 0 then get_env s ''HOME'' (expanduser os ''~'')
                     else args ! 0);
          target1 = (if startswith target0 ''~'' then expanduser os target0 else target0)
      in if \<not> isabs target1 then
           (case py_getcwd os s of
              Inl e \<Rightarrow> Inl e
            | Inr d \<Rightarrow> Inr (path_join d target1))
         else Inr target1)"

text \<open>
  \<^verbatim>\<open>builtin_cd\<close>. After a successful \<^verbatim>\<open>os.chdir(target)\<close> the working directory is
  the one the kernel reports, and \<^verbatim>\<open>PWD\<close> is set to the string \<open>target\<close>.
\<close>

definition builtin_cd :: "os_env \<Rightarrow> builtin" where
  "builtin_cd os args s =
     (if length args \<noteq> 0 \<and> length args \<noteq> 1 then
        (None, print (''cd: Invalid number of arguments. Expected 0 or 1, given ''
                        @ show_nat (length args)) s)
      else (case cd_target os args s of
              Inl e \<Rightarrow> (Some e, s)
            | Inr target \<Rightarrow>
                if \<not> path_exists os target then
                  (None, print (''cd: '' @ target @ '': No such file or directory'') s)
                else if \<not> path_isdir os target then
                  (None, print (''cd: '' @ target @ '': Cannot cd into a file'') s)
                else (case chdir_to os (cwd s) target of
                        Inr d \<Rightarrow>
                          (None, (emit (Chdir target) s)
                                   \<lparr>cwd := d, environ := (environ s)(''PWD'' \<mapsto> target)\<rparr>)
                      | Inl e \<Rightarrow> (None, print (''cd: '' @ target @ '': '' @ e) s))))"

text \<open>The dictionary \<^verbatim>\<open>shell_builtins\<close>.\<close>

definition shell_builtins :: "os_env \<Rightarrow> string \<rightharpoonup> builtin" where
  "shell_builtins os =
     map_of [(''echo'', builtin_echo), (''exit'', builtin_exit os), (''type'', builtin_type os),
             (''pwd'', builtin_pwd os), (''cd'', builtin_cd os)]"

subsection \<open>Command execution\<close>

definition exn_text :: "exn \<Rightarrow> string" where
  "exn_text e =
     (case e of SystemExit n \<Rightarrow> [] | IndexError \<Rightarrow> ''list index out of range''
              | OSError msg \<Rightarrow> msg)"

text \<open>
  \<^verbatim>\<open>execute_command\<close>; the event \<open>Call\<close> marks that the command was executed. A
  \<open>SystemExit\<close> from a builtin is raised again, any other exception is reported.
\<close>

definition execute_command :: "os_env \<Rightarrow> string \<Rightarrow> string list \<Rightarrow> shell \<Rightarrow> exn option \<times> shell" where
  "execute_command os cmd_name args s0 =
     (let s = emit (Call cmd_name args) s0 in
      case shell_builtins os cmd_name of
        Some f \<Rightarrow>
          (case f args s of
             (None, s1) \<Rightarrow> (None, s1)
           | (Some (SystemExit n), s1) \<Rightarrow> (Some (SystemExit n), s1)
           | (Some e, s1) \<Rightarrow> (None, print_err (cmd_name @ '': error: '' @ exn_text e) s1))
      | None \<Rightarrow>
          (case find_executable_in_path os cmd_name s of
             (path, s1) \<Rightarrow>
               (if \<not> truthy path then (None, print (cmd_name @ '': command not found'') s1)
                else (let s2 = emit (Spawn (the path) args) s1 in
                      case subprocess_run os (the path) args of
                        Returncode n \<Rightarrow> (None, s2)
                      | FileNotFoundError \<Rightarrow>
                          (None, print (cmd_name @ '': command not found'') s2)
                      | OtherException e \<Rightarrow>
                          (None, print_err (cmd_name @ '': error: '' @ e) s2)))))"

subsection \<open>Stream redirection and the read loop\<close>

definition get_std :: "std \<Rightarrow> shell \<Rightarrow> stream" where
  "get_std st s = (case st of Stdout \<Rightarrow> sys_stdout s | Stderr \<Rightarrow> sys_stderr s | Stdin \<Rightarrow> sys_stdin s)"

text \<open>The assignment \<^verbatim>\<open>sys.stdout = obj\<close> (or to \<^verbatim>\<open>sys.stderr\<close>, \<^verbatim>\<open>sys.stdin\<close>).\<close>

definition set_std :: "std \<Rightarrow> stream \<Rightarrow> shell \<Rightarrow> shell" where
  "set_std st obj s =
     (let s1 = emit (Rebind st obj) s in
      case st of Stdout \<Rightarrow> s1\<lparr>sys_stdout := obj\<rparr>
               | Stderr \<Rightarrow> s1\<lparr>sys_stderr := obj\<rparr>
               | Stdin \<Rightarrow> s1\<lparr>sys_stdin := obj\<rparr>)"

definition std_name :: "std \<Rightarrow> string" where
  "std_name st = (case st of Stdout \<Rightarrow> ''stdout'' | Stderr \<Rightarrow> ''stderr'' | Stdin \<Rightarrow> ''stdin'')"

text \<open>
  \<^verbatim>\<open>open(fname, mode)\<close>: the error text when it raises, otherwise the new file object
  and the state in which it is open.
\<close>

definition py_open :: "os_env \<Rightarrow> string option \<Rightarrow> string \<Rightarrow> shell \<Rightarrow> string + nat \<times> shell" where
  "py_open os fname mode s =
     (case fname of
        None \<Rightarrow> Inl ''expected str, bytes or os.PathLike object, not NoneType''
      | Some f \<Rightarrow>
          (case open_error os f mode of
             Some e \<Rightarrow> Inl e
           | None \<Rightarrow>
               Inr (next_file s,
                    (emit (Open (next_file s) f mode) s)
                      \<lparr>open_files := insert (next_file s) (open_files s),
                       next_file := next_file s + 1\<rparr>)))"

definition close_file :: "nat \<Rightarrow> shell \<Rightarrow> shell" where
  "close_file n s = (emit (Close n) s)\<lparr>open_files := open_files s - {n}\<rparr>"

text \<open>\<^verbatim>\<open>for ff in files_to_close: ff.close()\<close>.\<close>

fun close_all :: "nat list \<Rightarrow> shell \<Rightarrow> shell" where
  "close_all [] s = s"
| "close_all (n # ns) s = close_all ns (close_file n s)"

text \<open>
  The local variables \<^verbatim>\<open>contexts\<close> and \<^verbatim>\<open>files_to_close\<close> of one iteration of the
  read loop. A context made by \<^verbatim>\<open>redirect_stdout_to(f)\<close> is the pair of the stream it
  will rebind and the file object; making it rebinds nothing.
\<close>

record redirs =
  contexts :: "(std \<times> nat) list"
  files_to_close :: "nat list"

text \<open>
  One of the three blocks \<^verbatim>\<open>if stdout_info: ... try: f = open(fname, mode) ...\<close>. The
  boolean is false when the \<^verbatim>\<open>except\<close> arm printed the error and ran \<^verbatim>\<open>continue\<close>.
\<close>

definition open_redirection ::
    "os_env \<Rightarrow> std \<Rightarrow> rinfo option \<Rightarrow> redirs \<Rightarrow> shell \<Rightarrow> bool \<times> redirs \<times> shell" where
  "open_redirection os st info r s =
     (case info of
        None \<Rightarrow> (True, r, s)
      | Some (fname, mode) \<Rightarrow>
          (case py_open os fname mode s of
             Inl e \<Rightarrow>
               (False, r,
                print_err (''Error opening '' @ (case fname of None \<Rightarrow> ''None'' | Some f \<Rightarrow> f)
                           @ '' for '' @ std_name st @ '' redirection: '' @ e) s)
           | Inr (n, s1) \<Rightarrow>
               (True, \<lparr>contexts = contexts r @ [(st, n)],
                       files_to_close = files_to_close r @ [n]\<rparr>, s1)))"

text \<open>
  \<^verbatim>\<open>stack.enter_context(ctx)\<close> for each context in order: the binding found is saved
  on the stack and the stream is rebound to the file object.
\<close>

fun enter_contexts :: "(std \<times> nat) list \<Rightarrow> (std \<times> stream) list \<Rightarrow> shell \<Rightarrow> (std \<times> stream) list \<times> shell" where
  "enter_contexts [] stack s = (stack, s)"
| "enter_contexts ((st, n) # cs) stack s =
     enter_contexts cs ((st, get_std st s) # stack) (set_std st (FileObj n) s)"

text \<open>Leaving the \<^verbatim>\<open>with ExitStack()\<close> block: the \<^verbatim>\<open>finally\<close> arms run, last entered first.\<close>

fun exit_stack :: "(std \<times> stream) list \<Rightarrow> shell \<Rightarrow> shell" where
  "exit_stack [] s = s"
| "exit_stack ((st, orig) # rest) s = exit_stack rest (set_std st orig s)"

datatype control = Continue | Break | Uncaught exn

text \<open>
  The \<^verbatim>\<open>with ExitStack() as stack\<close> block, the \<^verbatim>\<open>except SystemExit: break\<close> arm and the
  \<^verbatim>\<open>finally\<close> arm of the outer \<^verbatim>\<open>try\<close>.
\<close>

definition run_redirected ::
    "os_env \<Rightarrow> string \<Rightarrow> string list \<Rightarrow> redirs \<Rightarrow> shell \<Rightarrow> control \<times> shell" where
  "run_redirected os cmd_name args_clean r s =
     (case enter_contexts (contexts r) [] s of
        (stack, s1) \<Rightarrow>
          (case execute_command os cmd_name args_clean s1 of
             (None, s2) \<Rightarrow> (Continue, close_all (files_to_close r) (exit_stack stack s2))
           | (Some (SystemExit n), s2) \<Rightarrow>
               (Break, close_all (files_to_close r)
                         (exit_stack stack (close_all (files_to_close r) s2)))
           | (Some e, s2) \<Rightarrow>
               (Uncaught e, close_all (files_to_close r) (exit_stack stack s2))))"

text \<open>The body of the read loop from \<^verbatim>\<open>cmd_name, *args = tokens\<close> on.\<close>

definition process_tokens :: "os_env \<Rightarrow> string list \<Rightarrow> shell \<Rightarrow> control \<times> shell" where
  "process_tokens os tokens s =
     (case tokens of
        [] \<Rightarrow> (Continue, s)
      | cmd_name # args \<Rightarrow>
          (case parse_redirections args of
             Inl e \<Rightarrow> (Uncaught e, s)
           | Inr p \<Rightarrow>
               (case open_redirection os Stdout (p_stdout p)
                       \<lparr>contexts = [], files_to_close = []\<rparr> (print_all (p_printed p) s) of
                  (ok1, r1, s1) \<Rightarrow>
                    if \<not> ok1 then (Continue, close_all (files_to_close r1) s1)
                    else (case open_redirection os Stderr (p_stderr p) r1 s1 of
                            (ok2, r2, s2) \<Rightarrow>
                              if \<not> ok2 then (Continue, close_all (files_to_close r2) s2)
                              else (case open_redirection os Stdin (p_stdin p) r2 s2 of
                                      (ok3, r3, s3) \<Rightarrow>
                                        if \<not> ok3 then (Continue, close_all (files_to_close r3) s3)
                                        else run_redirected os cmd_name (p_clean p) r3 s3)))))"

text \<open>
  What one turn of the read loop gets from \<^verbatim>\<open>input()\<close> and \<^verbatim>\<open>shlex.split\<close>: an
  interrupt, a blank line, a line that \<^verbatim>\<open>shlex.split\<close> rejects (with its message), or
  the tokens of the line. The end of the list is end of input.
\<close>

datatype input_event = KeyboardInterrupt | Blank | ShlexError string | Tokens "string list"

fun main_loop :: "os_env \<Rightarrow> input_event list \<Rightarrow> shell \<Rightarrow> exn option \<times> shell" where
  "main_loop os [] s = (None, print [] (emit (Write (sys_stdout s) ''$ '') s))"
| "main_loop os (ev # evs) s =
     (let s1 = emit (Write (sys_stdout s) ''$ '') s in
      case ev of
        KeyboardInterrupt \<Rightarrow> main_loop os evs (print [] s1)
      | Blank \<Rightarrow> main_loop os evs s1
      | ShlexError msg \<Rightarrow> main_loop os evs (print (''parse error: '' @ msg) s1)
      | Tokens tokens \<Rightarrow>
          (case process_tokens os tokens s1 of
             (Continue, s2) \<Rightarrow> main_loop os evs s2
           | (Break, s2) \<Rightarrow> (None, s2)
           | (Uncaught e, s2) \<Rightarrow> (Some e, s2)))"

text \<open>
  The exit status of the interpreter running \<^verbatim>\<open>main()\<close> as the script: 0 when
  \<^verbatim>\<open>main\<close> returns, the code of a \<open>SystemExit\<close> that leaves it, 1 for any other
  exception.
\<close>

definition exit_status :: "exn option \<Rightarrow> int" where
  "exit_status r = (case r of None \<Rightarrow> 0 | Some (SystemExit n) \<Rightarrow> n | Some e \<Rightarrow> 1)"

definition run_shell :: "os_env \<Rightarrow> input_event list \<Rightarrow> shell \<Rightarrow> int \<times> shell" where
  "run_shell os evs s = (case main_loop os evs s of (r, s') \<Rightarrow> (exit_status r, s'))"

subsection \<open>What is observed of one command line\<close>

text \<open>The three stream bindings of the interpreter.\<close>

definition streams :: "shell \<Rightarrow> stream \<times> stream \<times> stream" where
  "streams s = (sys_stdout s, sys_stderr s, sys_stdin s)"

text \<open>
  After a command line the streams are bound as before it and the same file objects
  are open as before it.
\<close>

definition restored :: "shell \<Rightarrow> shell \<Rightarrow> bool" where
  "restored s s' = (streams s' = streams s \<and> open_files s' = open_files s)"

text \<open>The streams, the open file objects and the next file object are as before.\<close>

definition frame :: "shell \<Rightarrow> shell \<Rightarrow> bool" where
  "frame s s' = (streams s' = streams s \<and> open_files s' = open_files s \<and>
                 next_file s' = next_file s)"

text \<open>A new file object is never one that is already open.\<close>

definition fresh_files :: "shell \<Rightarrow> bool" where
  "fresh_files s = (\<forall>n\<in>open_files s. n < next_file s)"

text \<open>
  The events that show a stream being rebound or a command being executed, and the
  part of the trace made of them.
\<close>

definition is_run_event :: "event \<Rightarrow> bool" where
  "is_run_event e =
     (case e of Rebind st obj \<Rightarrow> True | Call c args \<Rightarrow> True | Spawn p args \<Rightarrow> True
              | _ \<Rightarrow> False)"

definition run_events :: "shell \<Rightarrow> event list" where
  "run_events s = filter is_run_event (trace s)"

text \<open>
  The state \<open>sc\<close> reached inside the handling of one command line that began in
  \<open>s\<close>, with \<open>r\<close> the redirection files opened so far: no stream was rebound and
  no command run, and the open file objects are those of \<open>s\<close> and the new ones in
  \<open>files_to_close r\<close>.
\<close>

definition opened_for_line :: "shell \<Rightarrow> redirs \<Rightarrow> shell \<Rightarrow> bool" where
  "opened_for_line s r sc =
     (streams sc = streams s \<and> run_events sc = run_events s \<and>
      open_files sc = open_files s \<union> set (files_to_close r) \<and>
      next_file s \<le> next_file sc \<and>
      (\<forall>n\<in>set (files_to_close r). next_file s \<le> n \<and> n < next_file sc))"

text \<open>Opening the target of a spec raises.\<close>

definition open_fails :: "os_env \<Rightarrow> rinfo option \<Rightarrow> bool" where
  "open_fails os info =
     (case info of
        None \<Rightarrow> False
      | Some (fname, mode) \<Rightarrow>
          (case fname of None \<Rightarrow> True | Some f \<Rightarrow> open_error os f mode \<noteq> None))"

subsection \<open>A concrete environment\<close>

text \<open>
  An operating system with no file but the directory \<^verbatim>\<open>/tmp\<close> and the regular file
  \<^verbatim>\<open>/etc/passwd\<close>, where a file opens unless its name is \<^verbatim>\<open>/nodir/f\<close>, where the
  kernel's name for the directory \<^verbatim>\<open>/tmp/\<close> is \<^verbatim>\<open>/tmp\<close>, and where \<^verbatim>\<open>int\<close> reads
  ASCII decimals; and a fresh shell process in \<^verbatim>\<open>/home/u\<close>.
\<close>

definition os0 :: os_env where
  "os0 = \<lparr>path_exists = (\<lambda>p. p \<in> set [''/tmp'', ''/tmp/'', ''/etc/passwd'']),
          path_isfile = (\<lambda>p. p = ''/etc/passwd''),
          path_isdir = (\<lambda>p. p \<in> set [''/tmp'', ''/tmp/'']),
          access_x = (\<lambda>p. p \<in> set [''/tmp'', ''/tmp/'']),
          open_error = (\<lambda>f mode. if f = ''/nodir/f''
                                  then Some ''[Errno 2] No such file or directory'' else None),
          chdir_to = (\<lambda>d p. if p = ''/tmp/'' then Inr ''/tmp'' else Inr p),
          getcwd_error = (\<lambda>d. None),
          py_int = ascii_int,
          expanduser = (\<lambda>p. ''/home/u'' @ drop 1 p),
          subprocess_run = (\<lambda>p args. FileNotFoundError)\<rparr>"

definition shell0 :: shell where
  "shell0 = \<lparr>sys_stdout = OrigStdout, sys_stderr = OrigStderr, sys_stdin = OrigStdin,
             open_files = {}, next_file = 0, exec_cache = Map.empty, cwd = ''/home/u'',
             environ = [''HOME'' \<mapsto> ''/home/u'', ''PATH'' \<mapsto> ''/bin''], trace = []\<rparr>"

section \<open>Properties of the redirection parser\<close>

lemma loop_body_gen_advances:
  "loop_body_gen b tokens s = Inr s' \<Longrightarrow> idx s' = idx s + 1 \<or> idx s' = idx s + 2"
  by (auto simp: loop_body_gen_def separate_arm_def advance_of_def Let_def
           split: if_splits option.splits)

lemma startswith_append: "startswith t p \<longleftrightarrow> (\<exists>r. t = p @ r)"
proof
  assume "startswith t p"
  then have "t = p @ drop (length p) t"
    by (metis append_take_drop_id startswith_def)
  then show "\<exists>r. t = p @ r" ..
next
  assume "\<exists>r. t = p @ r"
  then show "startswith t p" by (auto simp: startswith_def)
qed

text \<open>The source's chain of prefix tests computes what the operator table says.\<close>

lemma loop_body_gen_spec: "loop_body_gen b tokens s = body_spec tokens s (tokens ! idx s)"
proof -
  let ?t = "tokens ! idx s"
  consider (a) "startswith ?t ''1>>''" | (b) "startswith ?t ''>>''"
    | (c) "\<not> startswith ?t ''1>>''" "startswith ?t ''1>''"
    | (d) "\<not> startswith ?t ''>>''" "startswith ?t ''>''"
    | (e) "startswith ?t ''2>>''"
    | (f) "\<not> startswith ?t ''2>>''" "startswith ?t ''2>''"
    | (g) "startswith ?t ''<''"
    | (h) "\<not> startswith ?t ''1>''" "\<not> startswith ?t ''>''" "\<not> startswith ?t ''2>''"
          "\<not> startswith ?t ''<''"
    by blast
  then show ?thesis
  proof cases
    case a
    then obtain r where "?t = ''1>>'' @ r" by (auto simp: startswith_append)
    then show ?thesis
      by (simp add: loop_body_gen_def body_spec_def spec_operator_def startswith_def set_info_def)
  next
    case b
    then obtain r where "?t = ''>>'' @ r" by (auto simp: startswith_append)
    then show ?thesis
      by (simp add: loop_body_gen_def body_spec_def spec_operator_def startswith_def set_info_def)
  next
    case c
    then obtain r where "?t = ''1>'' @ r" by (auto simp: startswith_append)
    with c(1) show ?thesis
      by (simp add: loop_body_gen_def body_spec_def spec_operator_def startswith_def set_info_def)
  next
    case d
    then obtain r where "?t = ''>'' @ r" by (auto simp: startswith_append)
    with d(1) show ?thesis
      by (simp add: loop_body_gen_def body_spec_def spec_operator_def startswith_def set_info_def)
  next
    case e
    then obtain r where "?t = ''2>>'' @ r" by (auto simp: startswith_append)
    then show ?thesis
      by (simp add: loop_body_gen_def body_spec_def spec_operator_def startswith_def set_info_def)
  next
    case f
    then obtain r where "?t = ''2>'' @ r" by (auto simp: startswith_append)
    with f(1) show ?thesis
      by (simp add: loop_body_gen_def body_spec_def spec_operator_def startswith_def set_info_def)
  next
    case g
    then obtain r where "?t = ''<'' @ r" by (auto simp: startswith_append)
    then show ?thesis
      by (simp add: loop_body_gen_def body_spec_def spec_operator_def startswith_def set_info_def)
  next
    case h
    have n1: "\<not> startswith ?t ''1>>''" "\<not> startswith ?t ''>>''" "\<not> startswith ?t ''2>>''"
      using h by (auto simp: startswith_append)
    have nb: "?t \<notin> set bare_operators"
      using h by (auto simp: bare_operators_def startswith_def)
    show ?thesis
      using h n1 nb by (simp add: loop_body_gen_def body_spec_def spec_operator_def)
  qed
qed

lemma loop_body_gen_total: "\<exists>s'. loop_body_gen b tokens s = Inr s'"
  by (simp add: loop_body_gen_spec body_spec_def split: option.split prod.split)

lemma scan_loop_gen_step:
  "idx s < length tokens \<Longrightarrow> loop_body_gen b tokens s = Inr s1 \<Longrightarrow>
     scan_loop_gen b tokens s = scan_loop_gen b tokens s1"
  by (subst scan_loop_gen.simps) simp

lemma scan_loop_gen_stop: "\<not> idx s < length tokens \<Longrightarrow> scan_loop_gen b tokens s = Inr s"
  by (subst scan_loop_gen.simps) simp

lemma last_wins_Nil: "last_wins st [] prev = prev"
  by (simp add: last_wins_def specs_for_def)

lemma last_wins_Cons:
  "last_wins st ((st', r) # occs) prev = last_wins st occs (if st = st' then Some r else prev)"
  by (simp add: last_wins_def specs_for_def)

lemma pinfo_set_info: "pinfo st (set_info st' r s) = (if st = st' then Some r else pinfo st s)"
  by (cases st; cases st') (simp_all add: pinfo_def set_info_def)

lemma pinfo_idx: "pinfo st (s\<lparr>idx := k\<rparr>) = pinfo st s"
  by (cases st) (simp_all add: pinfo_def)

lemma pinfo_cleaned: "pinfo st (s\<lparr>cleaned := c\<rparr>) = pinfo st s"
  by (cases st) (simp_all add: pinfo_def)

lemma cleaned_set_info: "cleaned (set_info st r s) = cleaned s"
  by (cases st) (simp_all add: set_info_def)

lemma idx_set_info: "idx (set_info st r s) = idx s"
  by (cases st) (simp_all add: set_info_def)

lemmas pstate_simps =
  pinfo_set_info pinfo_idx pinfo_cleaned cleaned_set_info idx_set_info last_wins_Nil

lemma next_token_drop:
  "next_token tokens i = (case drop (Suc i) tokens of [] \<Rightarrow> None | n # ts \<Rightarrow> Some n)"
proof (cases "Suc i < length tokens")
  case True
  then have "drop (Suc i) tokens = tokens ! Suc i # drop (Suc (Suc i)) tokens"
    by (simp add: Cons_nth_drop_Suc)
  with True show ?thesis by (simp add: next_token_def)
next
  case False
  then show ?thesis by (simp add: next_token_def)
qed

text \<open>
  The scanning loop started at position \<open>idx s\<close> returns, and leaves in each spec
  variable the last occurrence for its stream among the remaining tokens.
\<close>

lemma scan_loop_gen_spec:
  "\<exists>s'. scan_loop_gen b tokens s = Inr s' \<and>
        (\<forall>st. pinfo st s' = last_wins st (spec_occurrences (drop (idx s) tokens)) (pinfo st s)) \<and>
        cleaned s' = cleaned s @ spec_clean (drop (idx s) tokens)"
proof (induction b tokens s rule: scan_loop_gen.induct)
  case (1 b tokens s)
  show ?case
  proof (cases "idx s < length tokens")
    case False
    then show ?thesis by (simp add: scan_loop_gen_stop last_wins_Nil)
  next
    case True
    let ?t = "tokens ! idx s"
    have dr: "drop (idx s) tokens = ?t # drop (Suc (idx s)) tokens"
      using True by (simp add: Cons_nth_drop_Suc)
    obtain s1 where s1: "loop_body_gen b tokens s = Inr s1"
      using loop_body_gen_total by blast
    from 1 [OF True s1] obtain s' where
      run: "scan_loop_gen b tokens s1 = Inr s'" and
      inf: "\<And>st. pinfo st s' = last_wins st (spec_occurrences (drop (idx s1) tokens)) (pinfo st s1)" and
      cl: "cleaned s' = cleaned s1 @ spec_clean (drop (idx s1) tokens)"
      by blast
    have run': "scan_loop_gen b tokens s = Inr s'"
      using True s1 run by (simp add: scan_loop_gen_step)
    show ?thesis
    proof (cases "spec_operator ?t")
      case None
      then have "s1 = s\<lparr>cleaned := cleaned s @ [?t], idx := idx s + 1\<rparr>"
        using s1 by (simp add: loop_body_gen_spec body_spec_def)
      then show ?thesis
        using run' inf cl None by (simp add: dr pstate_simps)
    next
      case (Some op)
      obtain st mode attached where op: "op = (st, mode, attached)"
        by (cases op)
      have s1_eq: "s1 = (set_info st (py_or attached (next_token tokens (idx s)), mode) s)
                 \<lparr>idx := idx s + 1 + advance_of attached\<rparr>"
        using s1 Some op by (simp add: loop_body_gen_spec body_spec_def)
      show ?thesis
      proof (cases "attached = []")
        case False
        then show ?thesis
          using run' inf cl Some op s1_eq
          by (simp add: dr last_wins_Cons py_or_def advance_of_def pstate_simps)
      next
        case True
        note att = this
        show ?thesis
        proof (cases "drop (Suc (idx s)) tokens")
          case Nil
          then have "drop (Suc (Suc (idx s))) tokens = []"
            by simp
          then show ?thesis
            using run' inf cl Some op s1_eq att Nil
            by (simp add: dr last_wins_Cons py_or_def advance_of_def next_token_drop pstate_simps)
        next
          case (Cons n ts)
          then have "drop (Suc (Suc (idx s))) tokens = ts"
            by (metis drop_Suc list.sel(3) tl_drop)
          then show ?thesis
            using run' inf cl Some op s1_eq att Cons
            by (simp add: dr last_wins_Cons py_or_def advance_of_def next_token_drop pstate_simps)
        qed
      qed
    qed
  qed
qed

lemma finish_parse_cong:
  "stdout_info s = stdout_info s' \<Longrightarrow> stderr_info s = stderr_info s' \<Longrightarrow>
   stdin_info s = stdin_info s' \<Longrightarrow> cleaned s = cleaned s' \<Longrightarrow>
   finish_parse s = finish_parse s'"
  unfolding finish_parse_def by (simp split: option.split)

lemma parse_redirections_gen_scanned:
  "parse_redirections_gen b tokens = Inr (finish_parse (scanned tokens))"
proof -
  obtain s' where run: "scan_loop_gen b tokens pstate_init = Inr s'"
    and inf: "\<And>st. pinfo st s' = last_wins st (spec_occurrences tokens) (pinfo st pstate_init)"
    and cl: "cleaned s' = spec_clean tokens"
    using scan_loop_gen_spec [of b tokens pstate_init] by (auto simp: pstate_init_def)
  have "finish_parse s' = finish_parse (scanned tokens)"
  proof (rule finish_parse_cong)
    show "stdout_info s' = stdout_info (scanned tokens)"
      using inf [of Stdout] by (simp add: pinfo_def pstate_init_def scanned_def)
    show "stderr_info s' = stderr_info (scanned tokens)"
      using inf [of Stderr] by (simp add: pinfo_def pstate_init_def scanned_def)
    show "stdin_info s' = stdin_info (scanned tokens)"
      using inf [of Stdin] by (simp add: pinfo_def pstate_init_def scanned_def)
    show "cleaned s' = cleaned (scanned tokens)"
      using cl by (simp add: scanned_def)
  qed
  with run show ?thesis by (simp add: parse_redirections_gen_def)
qed

lemma parse_redirections_scanned:
  "parse_redirections tokens = Inr (finish_parse (scanned tokens))"
  by (simp add: parse_redirections_def parse_redirections_gen_scanned)

lemma bare_operator_consumed:
  assumes "tokens ! idx s \<in> set bare_operators"
  shows "loop_body_gen b tokens s = Inr (separate_arm tokens (tokens ! idx s) s)"
  using assms
  by (auto simp: bare_operators_def loop_body_gen_def separate_arm_def Let_def
        startswith_def py_or_def advance_of_def)

lemma scan_iterations_bound: "scan_iterations tokens s \<le> length tokens - idx s"
proof (induction tokens s rule: scan_iterations.induct)
  case (1 tokens s)
  show ?case
  proof (cases "idx s < length tokens")
    case True
    obtain s1 where s1: "loop_body tokens s = Inr s1"
      using loop_body_gen_total by blast
    have "idx s < idx s1" using loop_body_gen_advances [OF s1] by auto
    moreover have "scan_iterations tokens s1 \<le> length tokens - idx s1"
      using 1 True s1 by simp
    moreover have "scan_iterations tokens s = 1 + scan_iterations tokens s1"
      using True s1 by (subst scan_iterations.simps) simp
    ultimately show ?thesis using True by linarith
  next
    case False
    then show ?thesis by (subst scan_iterations.simps) simp
  qed
qed

lemma no_operator_None:
  assumes "\<forall>p\<in>set bare_operators. \<not> startswith t p"
  shows "spec_operator t = None"
  using assms by (simp add: spec_operator_def bare_operators_def)

lemma no_operators_occurrences:
  "\<forall>t\<in>set tokens. spec_operator t = None \<Longrightarrow>
     spec_occurrences tokens = [] \<and> spec_clean tokens = tokens"
  by (induction tokens) simp_all

text \<open>
  C6. A token list in which no token begins with \<^verbatim>\<open>>\<close>, \<^verbatim>\<open>>>\<close>, \<^verbatim>\<open>1>\<close>, \<^verbatim>\<open>1>>\<close>, \<^verbatim>\<open>2>\<close>,
  \<^verbatim>\<open>2>>\<close> or \<^verbatim>\<open><\<close> is returned unchanged, with the three specs absent and nothing
  printed.
\<close>

theorem parse_redirections_no_operators:
  assumes "\<forall>t\<in>set tokens. \<forall>p\<in>set bare_operators. \<not> startswith t p"
  shows "parse_redirections tokens =
           Inr \<lparr>p_clean = tokens, p_stdout = None, p_stderr = None, p_stdin = None,
                p_printed = []\<rparr>"
proof -
  have "\<forall>t\<in>set tokens. spec_operator t = None"
    using assms no_operator_None by blast
  then have "spec_occurrences tokens = []" and "spec_clean tokens = tokens"
    using no_operators_occurrences by blast+
  then show ?thesis
    by (simp add: parse_redirections_scanned scanned_def finish_parse_def last_wins_Nil)
qed

theorem parse_redirections_no_operators_witness:
  "parse_redirections [''-n'', ''a2>b'', ''x''] =
     Inr \<lparr>p_clean = [''-n'', ''a2>b'', ''x''], p_stdout = None, p_stderr = None,
          p_stdin = None, p_printed = []\<rparr>"
proof -
  have h: "\<forall>t\<in>set [''-n'', ''a2>b'', ''x'']. \<forall>p\<in>set bare_operators. \<not> startswith t p"
    by (simp add: bare_operators_def startswith_def)
  show ?thesis
    using parse_redirections_no_operators [OF h] .
qed

text \<open>
  C8. The \<^verbatim>\<open># Separate tokens\<close> arm is never reached: on a token that is exactly a
  bare operator the chain of prefix tests before it already does what the arm would do
  (the filename is the next token, two positions are taken), so the parser without the
  arm returns what the parser as written returns.
\<close>

theorem separate_arm_unreachable:
  "(\<forall>s. tokens ! idx s \<in> set bare_operators \<longrightarrow>
         loop_body_gen False tokens s = Inr (separate_arm tokens (tokens ! idx s) s)) \<and>
   parse_redirections_no_separate_arm tokens = parse_redirections tokens"
  by (simp add: bare_operator_consumed parse_redirections_def
        parse_redirections_no_separate_arm_def parse_redirections_gen_scanned)

theorem separate_arm_unreachable_witness:
  "[''2>>'', ''log''] ! idx pstate_init \<in> set bare_operators \<and>
   loop_body_gen False [''2>>'', ''log''] pstate_init =
     Inr (separate_arm [''2>>'', ''log''] ''2>>'' pstate_init) \<and>
   parse_redirections_no_separate_arm [''2>>'', ''log''] = parse_redirections [''2>>'', ''log'']"
  using separate_arm_unreachable [of "[''2>>'', ''log'']"]
  by (simp add: pstate_init_def bare_operators_def)

text \<open>
  C9. \<^verbatim>\<open>parse_redirections\<close> returns a result for every token list and raises nothing:
  every iteration of the scanning loop succeeds and moves the index forward by 1 (a
  token that is kept, or an operator with its filename attached) or by 2 (an
  operator with nothing attached), and the loop runs at most \<open>length tokens\<close> times.
\<close>

theorem parse_redirections_terminates:
  "(\<exists>r. parse_redirections tokens = Inr r) \<and>
   (\<forall>s. idx s < length tokens \<longrightarrow>
      (\<exists>s'. loop_body tokens s = Inr s' \<and>
            idx s' = idx s + (case spec_operator (tokens ! idx s) of
                                None \<Rightarrow> 1
                              | Some (st, mode, attached) \<Rightarrow> if attached = [] then 2 else 1))) \<and>
   scan_iterations tokens pstate_init \<le> length tokens"
proof -
  have "\<exists>r. parse_redirections tokens = Inr r"
    by (simp add: parse_redirections_scanned)
  moreover have "\<exists>s'. loop_body tokens s = Inr s' \<and>
            idx s' = idx s + (case spec_operator (tokens ! idx s) of
                                None \<Rightarrow> 1
                              | Some (st, mode, attached) \<Rightarrow> if attached = [] then 2 else 1)" for s
    by (simp add: loop_body_gen_spec body_spec_def advance_of_def idx_set_info
          split: option.split prod.split)
  moreover have "scan_iterations tokens pstate_init \<le> length tokens"
    using scan_iterations_bound [of tokens pstate_init] by simp
  ultimately show ?thesis by blast
qed

theorem parse_redirections_terminates_witness:
  "idx pstate_init < length [''a'', ''>'', ''f''] \<and>
   (\<exists>r. parse_redirections [''a'', ''>'', ''f''] = Inr r) \<and>
   (\<exists>s'. loop_body [''a'', ''>'', ''f''] pstate_init = Inr s' \<and> idx s' = 1) \<and>
   scan_iterations [''a'', ''>'', ''f''] pstate_init \<le> 3"
proof -
  let ?ts = "[''a'', ''>'', ''f'']"
  note inst = parse_redirections_terminates [of ?ts]
  have op: "spec_operator (?ts ! idx pstate_init) = None"
    by (simp add: spec_operator_def startswith_def pstate_init_def)
  have lt: "idx pstate_init < length ?ts"
    by (simp add: pstate_init_def)
  from inst have "\<exists>s'. loop_body ?ts pstate_init = Inr s' \<and>
      idx s' = idx pstate_init + (case spec_operator (?ts ! idx pstate_init) of
                                None \<Rightarrow> 1
                              | Some (st, mode, attached) \<Rightarrow> if attached = [] then 2 else 1)"
    using lt by blast
  then have step: "\<exists>s'. loop_body ?ts pstate_init = Inr s' \<and> idx s' = 1"
    by (simp add: op) (simp add: pstate_init_def)
  from inst have "\<exists>r. parse_redirections ?ts = Inr r"
    and "scan_iterations ?ts pstate_init \<le> length ?ts"
    by blast+
  with lt step show ?thesis by simp
qed

section \<open>Validation of the scanned specs\<close>

lemma first_invalid_None:
  "first_invalid [(a, ''stdout''), (b, ''stderr''), (c, ''stdin'')] = None \<longleftrightarrow>
     list_all (\<lambda>i. case i of None \<Rightarrow> True | Some r \<Rightarrow> has_filename r) [a, b, c]"
  by (auto simp: has_filename_def split: option.splits)

lemma first_invalid_name:
  "first_invalid [(a, ''stdout''), (b, ''stderr''), (c, ''stdin'')] = Some name \<Longrightarrow>
     name \<in> set [''stdout'', ''stderr'', ''stdin'']"
  by (auto split: option.splits if_splits)

lemma finish_parse_valid:
  assumes "filenames_present tokens"
  shows "finish_parse (scanned tokens) =
           \<lparr>p_clean = spec_clean tokens,
            p_stdout = last_wins Stdout (spec_occurrences tokens) None,
            p_stderr = last_wins Stderr (spec_occurrences tokens) None,
            p_stdin = last_wins Stdin (spec_occurrences tokens) None,
            p_printed = []\<rparr>"
proof -
  have "first_invalid [(stdout_info (scanned tokens), ''stdout''),
                       (stderr_info (scanned tokens), ''stderr''),
                       (stdin_info (scanned tokens), ''stdin'')] = None"
    using assms unfolding first_invalid_None by (simp add: filenames_present_def scanned_def)
  then show ?thesis
    by (simp add: finish_parse_def scanned_def)
qed

lemma finish_parse_invalid:
  assumes "\<not> filenames_present tokens"
  shows "\<exists>name\<in>set [''stdout'', ''stderr'', ''stdin''].
           finish_parse (scanned tokens) =
             \<lparr>p_clean = spec_clean tokens, p_stdout = None, p_stderr = None, p_stdin = None,
              p_printed = [missing_filename_message name]\<rparr>"
proof -
  let ?l = "[(stdout_info (scanned tokens), ''stdout''),
             (stderr_info (scanned tokens), ''stderr''),
             (stdin_info (scanned tokens), ''stdin'')]"
  have "first_invalid ?l \<noteq> None"
    using assms unfolding first_invalid_None by (simp add: filenames_present_def scanned_def)
  then obtain name where n: "first_invalid ?l = Some name"
    by blast
  then have "name \<in> set [''stdout'', ''stderr'', ''stdin'']"
    by (rule first_invalid_name)
  moreover have "finish_parse (scanned tokens) =
             \<lparr>p_clean = spec_clean tokens, p_stdout = None, p_stderr = None, p_stdin = None,
              p_printed = [missing_filename_message name]\<rparr>"
    using n by (simp add: finish_parse_def missing_filename_message_def) (simp add: scanned_def)
  ultimately show ?thesis by blast
qed

lemma last_wins_Some:
  "specs_for st occs \<noteq> [] \<Longrightarrow> last_wins st occs prev = Some (last (specs_for st occs))"
  by (simp add: last_wins_def)

text \<open>An operator without a filename can only be the last occurrence.\<close>

lemma missing_is_last:
  "(st, (None, m)) \<in> set (spec_occurrences ts) \<Longrightarrow>
     \<exists>pre. spec_occurrences ts = pre @ [(st, (None, m))]"
proof (induction "length ts" arbitrary: ts rule: less_induct)
  case less
  show ?case
  proof (cases ts)
    case Nil
    with less.prems show ?thesis by simp
  next
    case (Cons t rest)
    note ts = this
    show ?thesis
    proof (cases "spec_operator t")
      case None
      with less.prems ts have "(st, (None, m)) \<in> set (spec_occurrences rest)"
        by simp
      then obtain pre where "spec_occurrences rest = pre @ [(st, (None, m))]"
        using less.hyps [of rest] ts by auto
      with None ts show ?thesis by simp
    next
      case (Some op)
      obtain st' mode attached where op: "op = (st', mode, attached)"
        by (cases op)
      show ?thesis
      proof (cases "attached = []")
        case False
        with less.prems ts Some op have "(st, (None, m)) \<in> set (spec_occurrences rest)"
          by simp
        then obtain pre where "spec_occurrences rest = pre @ [(st, (None, m))]"
          using less.hyps [of rest] ts by auto
        with False Some op ts show ?thesis by simp
      next
        case True
        show ?thesis
        proof (cases rest)
          case Nil
          with less.prems True Some op ts show ?thesis by simp
        next
          case (Cons n rest')
          with less.prems ts True Some op
          have "(st, (None, m)) \<in> set (spec_occurrences rest')"
            by simp
          then obtain pre where "spec_occurrences rest' = pre @ [(st, (None, m))]"
            using less.hyps [of rest'] ts Cons by auto
          with True Some op ts Cons show ?thesis by simp
        qed
      qed
    qed
  qed
qed

lemma missing_not_present:
  assumes "(st, (None, m)) \<in> set (spec_occurrences ts)"
  shows "\<not> filenames_present ts"
proof -
  obtain pre where pre: "spec_occurrences ts = pre @ [(st, (None, m))]"
    using missing_is_last [OF assms] by blast
  then have "last_wins st (spec_occurrences ts) None = Some (None, m)"
    by (simp add: last_wins_def specs_for_def)
  then show ?thesis
    by (cases st) (simp_all add: filenames_present_def has_filename_def)
qed

section \<open>Claims about the parser's result\<close>

text \<open>
  C7, as stated, fails: in \<^verbatim>\<open>>a >b 2>\<close> standard output has two operators, the last
  one \<^verbatim>\<open>>b\<close>, yet the parser returns no spec for it, because the validation after the
  scan found the operator \<^verbatim>\<open>2>\<close> without a filename and dropped all three specs.
\<close>

theorem last_wins_counterexample:
  "2 \<le> length (specs_for Stdout (spec_occurrences [''>a'', ''>b'', ''2>''])) \<and>
   last (specs_for Stdout (spec_occurrences [''>a'', ''>b'', ''2>''])) = (Some ''b'', ''w'') \<and>
   parse_redirections [''>a'', ''>b'', ''2>''] =
     Inr \<lparr>p_clean = [], p_stdout = None, p_stderr = None, p_stdin = None,
          p_printed = [''Error: no filename provided for stderr redirection'']\<rparr>"
  by (simp add: parse_redirections_scanned scanned_def finish_parse_def spec_operator_def
        startswith_def last_wins_def specs_for_def)

text \<open>
  C7, amended. When a stream has two or more operators and the last operator of every
  redirected stream has a non-empty filename, the parser's spec for that stream is the
  filename and mode of its last operator, and nothing is printed.
\<close>

theorem last_operator_wins:
  assumes "2 \<le> length (specs_for st (spec_occurrences tokens))"
    and "filenames_present tokens"
  shows "\<exists>r. parse_redirections tokens = Inr r \<and>
             p_spec st r = Some (last (specs_for st (spec_occurrences tokens))) \<and>
             p_printed r = []"
proof -
  have ne: "specs_for st (spec_occurrences tokens) \<noteq> []"
    using assms(1) by auto
  have "p_spec st (finish_parse (scanned tokens)) =
          last_wins st (spec_occurrences tokens) None"
    by (cases st) (simp_all add: finish_parse_valid [OF assms(2)] p_spec_def)
  then show ?thesis
    using ne by (simp add: parse_redirections_scanned last_wins_Some
        finish_parse_valid [OF assms(2)])
qed

theorem last_operator_wins_witness:
  "\<exists>r. parse_redirections [''x'', ''2>a'', ''>'', ''o'', ''2>>'', ''b''] = Inr r \<and>
       p_spec Stderr r = Some (Some ''b'', ''a'') \<and> p_printed r = []"
proof -
  let ?ts = "[''x'', ''2>a'', ''>'', ''o'', ''2>>'', ''b'']"
  have h1: "2 \<le> length (specs_for Stderr (spec_occurrences ?ts))"
    by (simp add: specs_for_def spec_operator_def startswith_def)
  have h2: "filenames_present ?ts"
    by (simp add: filenames_present_def last_wins_def specs_for_def has_filename_def
          spec_operator_def startswith_def)
  have "last (specs_for Stderr (spec_occurrences ?ts)) = (Some ''b'', ''a'')"
    by (simp add: specs_for_def spec_operator_def startswith_def)
  then show ?thesis
    using last_operator_wins [OF h1 h2] by simp
qed

section \<open>Claims about builtins and the resolver\<close>

lemma run_redirected_plain:
  "run_redirected os cmd_name args \<lparr>contexts = [], files_to_close = []\<rparr> s =
     (case execute_command os cmd_name args s of
        (None, s2) \<Rightarrow> (Continue, s2)
      | (Some (SystemExit n), s2) \<Rightarrow> (Break, s2)
      | (Some e, s2) \<Rightarrow> (Uncaught e, s2))"
  by (simp add: run_redirected_def split: prod.split option.split exn.split)

text \<open>What the parser does with an operator that has no filename.\<close>

lemma missing_filename_diagnostic:
  assumes "(st, (None, mode)) \<in> set (spec_occurrences args)"
  shows "\<exists>name. name \<in> set [''stdout'', ''stderr'', ''stdin''] \<and>
           parse_redirections args =
             Inr \<lparr>p_clean = spec_clean args, p_stdout = None, p_stderr = None,
                  p_stdin = None, p_printed = [missing_filename_message name]\<rparr>"
proof -
  have "\<not> filenames_present args"
    using assms by (rule missing_not_present)
  then show ?thesis
    using finish_parse_invalid [of args] by (auto simp: parse_redirections_scanned)
qed

text \<open>
  C2. \<^verbatim>\<open>echo hi >\<close> has an operator with neither an attached filename nor a following
  token. The parser prints the diagnostic, but the command line does not fail: the
  read loop does not look at the outcome, and \<^verbatim>\<open>echo\<close> is executed with the remaining
  argument and prints \<^verbatim>\<open>hi\<close>.
\<close>

theorem missing_filename_command_still_runs:
  "(Stdout, (None, ''w'')) \<in> set (spec_occurrences [''hi'', ''>'']) \<and>
   trace (snd (process_tokens os0 [''echo'', ''hi'', ''>''] shell0)) =
     [Write OrigStdout (''Error: no filename provided for stdout redirection'' @ newline),
      Call ''echo'' [''hi''],
      Write OrigStdout (''hi'' @ newline)]"
  by (simp add: process_tokens_def parse_redirections_scanned scanned_def finish_parse_def
        spec_operator_def startswith_def last_wins_def specs_for_def open_redirection_def
        run_redirected_plain execute_command_def shell_builtins_def builtin_echo_def
        print_def emit_def shell0_def)

lemma find_executable_cached:
  "exec_cache s name = Some r \<Longrightarrow> find_executable_in_path os name s = (r, s)"
  by (simp add: find_executable_in_path_def)

lemma find_executable_relative_caches:
  assumes "\<not> isabs name" and "find_executable_in_path os name s = (r, s')"
  shows "exec_cache s' name = Some r"
  using assms
  by (auto simp: find_executable_in_path_def split: option.splits prod.splits)

text \<open>
  C3. The claim holds for names that are not absolute paths and for absolute paths
  that pass the test, but an absolute path that fails the test is returned as
  not-found without an entry in \<^verbatim>\<open>_exec_cache\<close>: the second call for \<^verbatim>\<open>/nope\<close> tests
  the filesystem again.
\<close>

theorem absolute_not_found_probed_again:
  "(case find_executable_in_path os0 ''/nope'' shell0 of
      (r1, s1) \<Rightarrow>
        (case find_executable_in_path os0 ''/nope'' s1 of
           (r2, s2) \<Rightarrow>
             r1 = None \<and> exec_cache s1 ''/nope'' = None \<and> trace s1 = [Probe ''/nope''] \<and>
             r2 = None \<and> trace s2 = [Probe ''/nope'', Probe ''/nope'']))"
  by (simp add: find_executable_in_path_def isabs_def startswith_def executable_test_def
        emit_def os0_def shell0_def)

lemma builtin_exit_no_arguments: "builtin_exit os [] s = (Some (SystemExit 0), s)"
  by (simp add: builtin_exit_def)

lemma builtin_exit_integer:
  "py_int os a = Some n \<Longrightarrow> builtin_exit os [a] s = (Some (SystemExit n), s)"
  by (simp add: builtin_exit_def)

lemma builtin_exit_not_integer:
  "py_int os a = None \<Longrightarrow>
     builtin_exit os [a] s = (None, print (''exit: '' @ a @ '': numeric argument required'') s)"
  by (simp add: builtin_exit_def)

lemma builtin_exit_too_many:
  "1 < length args \<Longrightarrow>
     builtin_exit os args s =
       (None, print (''exit: Invalid number of arguments. Expected 1, given ''
                       @ show_nat (length args)) s)"
  by (auto simp: builtin_exit_def)

lemma py_int_42: "py_int os0 ''42'' = Some 42"
  by (simp add: os0_def ascii_int_def strip_def is_space_def parse_nat_def is_digit_def
        digit_val_def)

text \<open>
  C1. \<^verbatim>\<open>builtin_exit\<close> raises \<open>SystemExit 42\<close> for \<^verbatim>\<open>exit 42\<close>, but the read loop
  catches it with \<^verbatim>\<open>except SystemExit: break\<close>, \<^verbatim>\<open>main\<close> returns, and the process ends
  with status 0.
\<close>

theorem exit_code_discarded:
  "fst (builtin_exit os0 [''42''] shell0) = Some (SystemExit 42) \<and>
   fst (main_loop os0 [Tokens [''exit'', ''42'']] shell0) = None \<and>
   fst (run_shell os0 [Tokens [''exit'', ''42'']] shell0) = 0"
proof -
  have p: "parse_redirections [''42''] =
      Inr \<lparr>p_clean = [''42''], p_stdout = None, p_stderr = None, p_stdin = None, p_printed = []\<rparr>"
    by (simp add: parse_redirections_scanned scanned_def finish_parse_def spec_operator_def
          startswith_def last_wins_def specs_for_def)
  have e: "builtin_exit os0 [''42''] s = (Some (SystemExit 42), s)" for s
    by (rule builtin_exit_integer [OF py_int_42])
  have x: "execute_command os0 ''exit'' [''42''] s =
             (Some (SystemExit 42), emit (Call ''exit'' [''42'']) s)" for s
    by (simp add: execute_command_def shell_builtins_def e)
  have pt: "process_tokens os0 [''exit'', ''42''] s = (Break, emit (Call ''exit'' [''42'']) s)" for s
    by (simp add: process_tokens_def p open_redirection_def run_redirected_plain x)
  show ?thesis
    by (simp add: run_shell_def exit_status_def pt e)
qed

lemma isabs_path_join: "isabs a \<Longrightarrow> isabs (path_join a b)"
  by (cases a) (auto simp: isabs_def path_join_def startswith_def)

lemma cd_target_one:
  "cd_target os [a] s =
     (let t = (if startswith a ''~'' then expanduser os a else a)
      in if isabs t then Inr t
         else (case py_getcwd os s of Inl e \<Rightarrow> Inl e | Inr d \<Rightarrow> Inr (path_join d t)))"
  by (simp add: cd_target_def Let_def)

lemma cd_target_absolute:
  assumes "cd_target os args s = Inr t" and "isabs (cwd s)"
  shows "isabs t"
proof -
  have "py_getcwd os s = Inr d \<Longrightarrow> isabs (path_join d x)" for d x
    using assms(2) by (auto simp: py_getcwd_def isabs_path_join split: option.splits)
  then show ?thesis
    using assms(1) by (auto simp: cd_target_def Let_def split: if_splits sum.splits)
qed

text \<open>When \<^verbatim>\<open>os.getcwd()\<close> raises while the target is resolved, \<^verbatim>\<open>cd\<close> raises and changes nothing.\<close>

lemma builtin_cd_unresolved:
  "cd_target os [a] s = Inl e \<Longrightarrow> builtin_cd os [a] s = (Some e, s)"
  by (simp add: builtin_cd_def)

text \<open>
  C5. \<^verbatim>\<open>cd\<close> with one argument, where the resolved target \<open>t\<close> is the argument with
  a leading \<^verbatim>\<open>~\<close> expanded and, when relative, joined to \<^verbatim>\<open>os.getcwd()\<close>: a target that
  does not exist gives the message \<^verbatim>\<open>No such file or directory\<close>, and one that is not
  a directory gives \<^verbatim>\<open>Cannot cd into a file\<close>, both leaving the working directory and
  the environment as they were; when the target is a directory and \<^verbatim>\<open>os.chdir\<close>
  succeeds, the working directory of the process becomes the directory that
  \<^verbatim>\<open>os.chdir\<close> of the target leads to, and \<^verbatim>\<open>PWD\<close> is set to the target, an absolute
  path.
\<close>

theorem builtin_cd_one_argument:
  assumes "cd_target os [a] s = Inr t"
  shows
  "(\<not> path_exists os t \<longrightarrow>
      (\<exists>s'. builtin_cd os [a] s = (None, s') \<and> cwd s' = cwd s \<and> environ s' = environ s \<and>
            trace s' = trace s @ [Write (sys_stdout s)
              (''cd: '' @ t @ '': No such file or directory'' @ newline)])) \<and>
   (path_exists os t \<and> \<not> path_isdir os t \<longrightarrow>
      (\<exists>s'. builtin_cd os [a] s = (None, s') \<and> cwd s' = cwd s \<and> environ s' = environ s \<and>
            trace s' = trace s @ [Write (sys_stdout s)
              (''cd: '' @ t @ '': Cannot cd into a file'' @ newline)])) \<and>
   (\<forall>d. path_exists os t \<and> path_isdir os t \<and> chdir_to os (cwd s) t = Inr d \<longrightarrow>
      (\<exists>s'. builtin_cd os [a] s = (None, s') \<and> cwd s' = d \<and>
            environ s' = (environ s)(''PWD'' \<mapsto> t) \<and>
            trace s' = trace s @ [Chdir t])) \<and>
   (isabs (cwd s) \<longrightarrow> isabs t)"
  using assms cd_target_absolute [OF assms]
  by (simp add: builtin_cd_def print_def emit_def)

theorem builtin_cd_one_argument_witness:
  "(\<exists>s'. builtin_cd os0 [''/nonexistent_dir_xyz''] shell0 = (None, s') \<and> cwd s' = ''/home/u'' \<and>
        environ s' ''PWD'' = None \<and>
        trace s' = [Write OrigStdout
          (''cd: /nonexistent_dir_xyz: No such file or directory'' @ newline)]) \<and>
   (\<exists>s'. builtin_cd os0 [''/etc/passwd''] shell0 = (None, s') \<and> cwd s' = ''/home/u'' \<and>
        environ s' ''PWD'' = None \<and>
        trace s' = [Write OrigStdout (''cd: /etc/passwd: Cannot cd into a file'' @ newline)]) \<and>
   (\<exists>s'. builtin_cd os0 [''/tmp/''] shell0 = (None, s') \<and> cwd s' = ''/tmp'' \<and>
        environ s' ''PWD'' = Some ''/tmp/'' \<and> isabs ''/tmp/'')"
proof -
  have t1: "cd_target os0 [''/nonexistent_dir_xyz''] shell0 = Inr ''/nonexistent_dir_xyz''"
    and t2: "cd_target os0 [''/etc/passwd''] shell0 = Inr ''/etc/passwd''"
    and t3: "cd_target os0 [''/tmp/''] shell0 = Inr ''/tmp/''"
    by (simp_all add: cd_target_one isabs_def startswith_def)
  have a: "isabs (cwd shell0)"
    by (simp add: isabs_def startswith_def shell0_def)
  have c1: "\<exists>s'. builtin_cd os0 [''/nonexistent_dir_xyz''] shell0 = (None, s') \<and>
        cwd s' = ''/home/u'' \<and> environ s' ''PWD'' = None \<and>
        trace s' = [Write OrigStdout
          (''cd: /nonexistent_dir_xyz: No such file or directory'' @ newline)]"
    using builtin_cd_one_argument [OF t1]
    by (simp add: os0_def) (auto simp: shell0_def)
  have c2: "\<exists>s'. builtin_cd os0 [''/etc/passwd''] shell0 = (None, s') \<and> cwd s' = ''/home/u'' \<and>
        environ s' ''PWD'' = None \<and>
        trace s' = [Write OrigStdout (''cd: /etc/passwd: Cannot cd into a file'' @ newline)]"
    using builtin_cd_one_argument [OF t2]
    by (simp add: os0_def) (auto simp: shell0_def)
  have d: "path_exists os0 ''/tmp/'' \<and> path_isdir os0 ''/tmp/'' \<and>
           chdir_to os0 (cwd shell0) ''/tmp/'' = Inr ''/tmp''"
    by (simp add: os0_def)
  have c3: "\<exists>s'. builtin_cd os0 [''/tmp/''] shell0 = (None, s') \<and> cwd s' = ''/tmp'' \<and>
        environ s' ''PWD'' = Some ''/tmp/'' \<and> isabs ''/tmp/''"
    using builtin_cd_one_argument [OF t3] d a by auto
  from c1 c2 c3 show ?thesis by blast
qed

section \<open>Stream redirection is undone\<close>

lemma emit_fields:
  "sys_stdout (emit e s) = sys_stdout s" "sys_stderr (emit e s) = sys_stderr s"
  "sys_stdin (emit e s) = sys_stdin s" "open_files (emit e s) = open_files s"
  "next_file (emit e s) = next_file s" "trace (emit e s) = trace s @ [e]"
  by (simp_all add: emit_def)

lemma streams_emit: "streams (emit e s) = streams s"
  by (simp add: streams_def emit_fields)

lemma streams_print: "streams (print x s) = streams s" "streams (print_err x s) = streams s"
  by (simp_all add: print_def print_err_def streams_emit)

lemma files_print:
  "open_files (print x s) = open_files s" "next_file (print x s) = next_file s"
  "open_files (print_err x s) = open_files s" "next_file (print_err x s) = next_file s"
  by (simp_all add: print_def print_err_def emit_fields)

lemma run_events_emit:
  "run_events (emit e s) = run_events s @ (if is_run_event e then [e] else [])"
  by (simp add: run_events_def emit_fields)

lemma run_events_print:
  "run_events (print x s) = run_events s" "run_events (print_err x s) = run_events s"
  by (simp_all add: print_def print_err_def run_events_emit is_run_event_def)

lemma print_all_frame:
  "streams (print_all xs s) = streams s \<and> open_files (print_all xs s) = open_files s \<and>
   next_file (print_all xs s) = next_file s \<and> run_events (print_all xs s) = run_events s"
  by (induction xs arbitrary: s) (simp_all add: streams_print files_print run_events_print)

text \<open>A state that differs from \<open>s\<close> only in the cache, the directory or the environment.\<close>

lemma streams_update:
  "streams (s\<lparr>exec_cache := c\<rparr>) = streams s"
  "streams (s\<lparr>cwd := d, environ := v\<rparr>) = streams s"
  by (simp_all add: streams_def)

lemma search_dirs_frame:
  "search_dirs os ds name s = (r, s') \<Longrightarrow>
     streams s' = streams s \<and> open_files s' = open_files s \<and> next_file s' = next_file s"
proof (induction ds arbitrary: s)
  case Nil
  then show ?case by simp
next
  case (Cons d ds)
  show ?case
  proof (cases "d = [] \<or> \<not> executable_test os (path_join d name)")
    case True
    then consider "d = []" | "d \<noteq> []" "\<not> executable_test os (path_join d name)"
      by blast
    then show ?thesis
    proof cases
      case 1
      with Cons show ?thesis by simp
    next
      case 2
      with Cons.prems
      have "search_dirs os ds name (emit (Probe (path_join d name)) s) = (r, s')"
        by (simp add: Let_def)
      from Cons.IH [OF this] show ?thesis
        by (simp add: streams_emit emit_fields)
    qed
  next
    case False
    with Cons.prems have "s' = emit (Probe (path_join d name)) s"
      by (simp add: Let_def)
    then show ?thesis by (simp add: streams_emit emit_fields)
  qed
qed

lemma find_executable_frame:
  assumes "find_executable_in_path os name s = (r, s')"
  shows "streams s' = streams s \<and> open_files s' = open_files s \<and> next_file s' = next_file s"
proof (cases "exec_cache s name")
  case (Some cached)
  with assms show ?thesis by (simp add: find_executable_in_path_def)
next
  case None
  show ?thesis
  proof (cases "isabs name")
    case True
    with None assms show ?thesis
      by (auto simp: find_executable_in_path_def Let_def streams_def emit_fields
            split: if_splits)
  next
    case False
    obtain r1 s1 where sd: "search_dirs os (get_path_dirs s) name s = (r1, s1)"
      by (cases "search_dirs os (get_path_dirs s) name s")
    from search_dirs_frame [OF sd]
    have f: "streams s1 = streams s" "open_files s1 = open_files s" "next_file s1 = next_file s"
      by simp_all
    from None False assms sd have "\<exists>c. s' = s1\<lparr>exec_cache := c\<rparr>"
      by (auto simp: find_executable_in_path_def split: option.splits)
    then show ?thesis
      using f by (auto simp: streams_def)
  qed
qed

lemma frame_refl: "frame s s"
  by (simp add: frame_def)

lemma frame_trans: "frame s s1 \<Longrightarrow> frame s1 s2 \<Longrightarrow> frame s s2"
  by (simp add: frame_def)

lemma frame_emit: "frame s (emit e s)"
  by (simp add: frame_def streams_emit emit_fields)

lemma frame_print: "frame s (print x s)" "frame s (print_err x s)"
  by (simp_all add: frame_def streams_print files_print)

lemma frame_find: "find_executable_in_path os name s = (r, s') \<Longrightarrow> frame s s'"
  using find_executable_frame by (simp add: frame_def)

lemma builtin_echo_frame: "builtin_echo args s = (r, s') \<Longrightarrow> frame s s'"
  by (auto simp: builtin_echo_def frame_print)

lemma builtin_exit_frame: "builtin_exit os args s = (r, s') \<Longrightarrow> frame s s'"
  by (auto simp: builtin_exit_def frame_print frame_refl split: if_splits option.splits)

lemma builtin_pwd_frame: "builtin_pwd os args s = (r, s') \<Longrightarrow> frame s s'"
  by (auto simp: builtin_pwd_def frame_print frame_refl split: sum.splits)

lemma builtin_type_frame:
  assumes "builtin_type os args s = (r, s')"
  shows "frame s s'"
proof (cases "length args \<noteq> 1 \<or> args ! 0 \<in> set builtin_names")
  case True
  with assms show ?thesis
    by (auto simp: builtin_type_def Let_def frame_print split: if_splits)
next
  case False
  obtain p s1 where f: "find_executable_in_path os (args ! 0) s = (p, s1)"
    by (cases "find_executable_in_path os (args ! 0) s")
  from False assms f have "\<exists>x. s' = print x s1"
    by (auto simp: builtin_type_def Let_def split: if_splits)
  then show ?thesis
    using frame_find [OF f] frame_print(1) frame_trans by blast
qed

lemma builtin_cd_frame:
  assumes "builtin_cd os args s = (r, s')"
  shows "frame s s'"
proof -
  have "s' = s \<or> (\<exists>x. s' = print x s) \<or>
        (\<exists>t d. s' = (emit (Chdir t) s)\<lparr>cwd := d, environ := (environ s)(''PWD'' \<mapsto> t)\<rparr>)"
    using assms by (auto simp: builtin_cd_def Let_def split: if_splits sum.splits)
  then show ?thesis
    by (auto simp: frame_print frame_refl) (simp add: frame_def streams_def emit_fields)
qed

lemma shell_builtins_frame:
  assumes "shell_builtins os name = Some f" and "f args s = (r, s')"
  shows "frame s s'"
proof -
  from assms(1) have "f = builtin_echo \<or> f = builtin_exit os \<or> f = builtin_type os \<or>
      f = builtin_pwd os \<or> f = builtin_cd os"
    by (auto simp: shell_builtins_def split: if_splits)
  with assms(2) show ?thesis
    by (auto dest: builtin_echo_frame builtin_exit_frame builtin_type_frame builtin_pwd_frame
          builtin_cd_frame)
qed

lemma execute_command_frame:
  assumes "execute_command os cmd_name args s = (r, s')"
  shows "frame s s'"
proof -
  let ?s0 = "emit (Call cmd_name args) s"
  have f0: "frame s ?s0" by (rule frame_emit)
  show ?thesis
  proof (cases "shell_builtins os cmd_name")
    case (Some f)
    obtain r1 s1 where run: "f args ?s0 = (r1, s1)"
      by (cases "f args ?s0")
    have f1: "frame ?s0 s1"
      using shell_builtins_frame [OF Some run] .
    from assms Some run have "s' = s1 \<or> (\<exists>x. s' = print_err x s1)"
      by (auto simp: execute_command_def Let_def split: option.splits exn.splits)
    then have "frame s1 s'"
      using frame_refl frame_print(2) by blast
    with f0 f1 show ?thesis using frame_trans by blast
  next
    case None
    obtain p s1 where fe: "find_executable_in_path os cmd_name ?s0 = (p, s1)"
      by (cases "find_executable_in_path os cmd_name ?s0")
    have f1: "frame ?s0 s1" using frame_find [OF fe] .
    let ?s2 = "emit (Spawn (the p) args) s1"
    from assms None fe
    have "(\<exists>x. s' = print x s1) \<or> s' = ?s2 \<or> (\<exists>x. s' = print x ?s2) \<or>
          (\<exists>x. s' = print_err x ?s2)"
      by (auto simp: execute_command_def Let_def split: if_splits run_result.splits)
    then have "frame s1 s'"
      using frame_print frame_emit frame_trans by blast
    with f0 f1 show ?thesis using frame_trans by blast
  qed
qed

lemma close_all_effect:
  "streams (close_all ns s) = streams s \<and> open_files (close_all ns s) = open_files s - set ns \<and>
   next_file (close_all ns s) = next_file s \<and> run_events (close_all ns s) = run_events s"
proof (induction ns arbitrary: s)
  case Nil
  then show ?case by simp
next
  case (Cons n ns)
  have c: "streams (close_file n s) = streams s" "open_files (close_file n s) = open_files s - {n}"
    "next_file (close_file n s) = next_file s" "run_events (close_file n s) = run_events s"
    by (simp_all add: close_file_def streams_def emit_fields run_events_def is_run_event_def)
  show ?case
    using Cons [of "close_file n s"] by (auto simp: c)
qed

text \<open>
  One of the three blocks that open a target: the streams are not touched; at most one
  file object is opened, a new one, and it is put on \<open>files_to_close\<close>; the block
  fails exactly when \<^verbatim>\<open>open\<close> raises, and then opens nothing.
\<close>

lemma open_redirection_effect:
  assumes "open_redirection os st info r s = (ok, r', s')"
  shows "streams s' = streams s \<and> run_events s' = run_events s \<and>
         next_file s \<le> next_file s' \<and> (ok \<longleftrightarrow> \<not> open_fails os info) \<and>
         (\<exists>new. files_to_close r' = files_to_close r @ new \<and>
                open_files s' = open_files s \<union> set new \<and>
                (\<forall>n\<in>set new. next_file s \<le> n \<and> n < next_file s'))"
proof (cases info)
  case None
  with assms show ?thesis
    by (simp add: open_redirection_def open_fails_def)
next
  case (Some fm)
  obtain fname mode where fm: "fm = (fname, mode)" by (cases fm)
  show ?thesis
  proof (cases "py_open os fname mode s")
    case (Inl e)
    then have "open_fails os info"
      using Some fm by (auto simp: py_open_def open_fails_def split: option.splits)
    with assms Some fm Inl show ?thesis
      by (auto simp: open_redirection_def streams_print files_print run_events_print)
  next
    case (Inr ns)
    obtain n s1 where ns: "ns = (n, s1)" by (cases ns)
    from Inr ns obtain f where f: "fname = Some f" "open_error os f mode = None"
      and n: "n = next_file s"
      and s1: "s1 = (emit (Open (next_file s) f mode) s)
                      \<lparr>open_files := insert (next_file s) (open_files s),
                       next_file := next_file s + 1\<rparr>"
      by (auto simp: py_open_def split: option.splits)
    have nf: "\<not> open_fails os info"
      using Some fm f by (simp add: open_fails_def)
    have r': "files_to_close r' = files_to_close r @ [n]" and ok: "ok" and s': "s' = s1"
      using assms Some fm Inr ns by (auto simp: open_redirection_def)
    have "streams s1 = streams s" "run_events s1 = run_events s"
      "next_file s1 = next_file s + 1" "open_files s1 = open_files s \<union> set [n]"
      by (simp_all add: s1 n streams_def emit_fields run_events_def is_run_event_def)
    with r' ok s' nf n show ?thesis
      by auto
  qed
qed

lemma set_std_files:
  "open_files (set_std st obj s) = open_files s" "next_file (set_std st obj s) = next_file s"
  by (cases st, simp_all add: set_std_def emit_fields)+

lemma exit_stack_files:
  "open_files (exit_stack stack s) = open_files s \<and> next_file (exit_stack stack s) = next_file s"
  by (induction stack s rule: exit_stack.induct) (simp_all add: set_std_files)

lemma enter_contexts_files:
  "enter_contexts cs stack s = (stack', s') \<Longrightarrow>
     open_files s' = open_files s \<and> next_file s' = next_file s"
  by (induction cs stack s rule: enter_contexts.induct) (simp_all add: set_std_files)

lemma streams_set_std:
  "streams s1 = streams s2 \<Longrightarrow> streams (set_std st obj s1) = streams (set_std st obj s2)"
  by (cases st) (simp_all add: set_std_def streams_def emit_fields)

lemma streams_set_std_back: "streams (set_std st (get_std st s) (set_std st obj s)) = streams s"
  by (cases st) (simp_all add: set_std_def get_std_def streams_def emit_fields)

lemma exit_stack_streams:
  "streams s1 = streams s2 \<Longrightarrow> streams (exit_stack stack s1) = streams (exit_stack stack s2)"
proof (induction stack arbitrary: s1 s2)
  case Nil
  then show ?case by simp
next
  case (Cons a stack)
  obtain st orig where a: "a = (st, orig)" by (cases a)
  show ?case
    using Cons.IH [OF streams_set_std [OF Cons.prems, of st orig]] by (simp add: a)
qed

text \<open>
  Leaving the contexts that were entered, from any state in which the streams are
  bound as they were after entering, binds the streams as leaving the contexts
  entered before them does from the state before entering.
\<close>

lemma enter_exit_streams:
  "enter_contexts cs stack s = (stack', s1) \<Longrightarrow> streams s2 = streams s1 \<Longrightarrow>
     streams (exit_stack stack' s2) = streams (exit_stack stack s)"
proof (induction cs stack s arbitrary: s2 rule: enter_contexts.induct)
  case (1 stack s)
  from "1.prems"(1) have eq: "stack' = stack" "s1 = s" by simp_all
  have "streams (exit_stack stack s2) = streams (exit_stack stack s)"
    using "1.prems"(2) unfolding eq by (rule exit_stack_streams)
  then show ?case unfolding eq .
next
  case (2 st n cs stack s)
  have e: "enter_contexts cs ((st, get_std st s) # stack) (set_std st (FileObj n) s) = (stack', s1)"
    using "2.prems"(1) by simp
  have "streams (exit_stack stack' s2) =
      streams (exit_stack ((st, get_std st s) # stack) (set_std st (FileObj n) s))"
    using e "2.prems"(2) by (rule "2.IH")
  also have "\<dots> = streams (exit_stack stack (set_std st (get_std st s) (set_std st (FileObj n) s)))"
    by simp
  also have "\<dots> = streams (exit_stack stack s)"
    by (rule exit_stack_streams) (rule streams_set_std_back)
  finally show ?case .
qed

lemma run_redirected_effect:
  assumes "run_redirected os cmd_name args r s = (c, s')"
  shows "streams s' = streams s \<and> open_files s' = open_files s - set (files_to_close r) \<and>
         next_file s' = next_file s"
proof -
  obtain stack s1 where en: "enter_contexts (contexts r) [] s = (stack, s1)"
    by (cases "enter_contexts (contexts r) [] s")
  obtain x s2 where ex: "execute_command os cmd_name args s1 = (x, s2)"
    by (cases "execute_command os cmd_name args s1")
  have f12: "frame s1 s2" using execute_command_frame [OF ex] .
  let ?fs = "files_to_close r"
  have s': "s' = close_all ?fs (exit_stack stack s2) \<or>
            s' = close_all ?fs (exit_stack stack (close_all ?fs s2))"
    using assms en ex by (auto simp: run_redirected_def split: option.splits exn.splits)
  have st2: "streams s2 = streams s1" and of2: "open_files s2 = open_files s"
    and nf2: "next_file s2 = next_file s"
    using f12 enter_contexts_files [OF en] by (simp_all add: frame_def)
  have a: "streams (exit_stack stack s2) = streams s"
    using enter_exit_streams [OF en st2] by simp
  have c: "streams (close_all ?fs s2) = streams s1"
    using st2 by (simp add: close_all_effect)
  have b: "streams (exit_stack stack (close_all ?fs s2)) = streams s"
    using enter_exit_streams [OF en c] by simp
  have o1: "open_files (close_all ?fs (exit_stack stack s2)) = open_files s - set ?fs"
    by (simp add: close_all_effect exit_stack_files of2)
  have o2: "open_files (close_all ?fs (exit_stack stack (close_all ?fs s2))) =
              open_files s - set ?fs"
    by (simp add: close_all_effect exit_stack_files of2)
  from s' show ?thesis
  proof
    assume "s' = close_all ?fs (exit_stack stack s2)"
    then show ?thesis using a o1 nf2 by (simp add: close_all_effect exit_stack_files)
  next
    assume "s' = close_all ?fs (exit_stack stack (close_all ?fs s2))"
    then show ?thesis using b o2 nf2 by (simp add: close_all_effect exit_stack_files)
  qed
qed

lemma opened_for_line_start:
  "opened_for_line s \<lparr>contexts = [], files_to_close = []\<rparr> (print_all xs s)"
  by (simp add: opened_for_line_def print_all_frame)

lemma opened_for_line_open:
  assumes "opened_for_line s r sc" and "open_redirection os st info r sc = (ok, r', sc')"
  shows "opened_for_line s r' sc'"
proof -
  from open_redirection_effect [OF assms(2)] obtain new where
    e: "streams sc' = streams sc" "run_events sc' = run_events sc" "next_file sc \<le> next_file sc'"
    and n: "files_to_close r' = files_to_close r @ new" "open_files sc' = open_files sc \<union> set new"
      "\<forall>n\<in>set new. next_file sc \<le> n \<and> n < next_file sc'"
    by blast
  from assms(1) have i: "streams sc = streams s" "run_events sc = run_events s"
    "open_files sc = open_files s \<union> set (files_to_close r)" "next_file s \<le> next_file sc"
    "\<forall>n\<in>set (files_to_close r). next_file s \<le> n \<and> n < next_file sc"
    by (simp_all add: opened_for_line_def)
  have "\<forall>n\<in>set (files_to_close r'). next_file s \<le> n \<and> n < next_file sc'"
    using n(1,3) i(4,5) e(3) by fastforce
  moreover have "open_files sc' = open_files s \<union> set (files_to_close r')"
    using n(1,2) i(3) by auto
  ultimately show ?thesis
    using e i(1,2,4) by (simp add: opened_for_line_def)
qed

text \<open>Closing the files opened for the line leaves open exactly what was open before.\<close>

lemma opened_for_line_disjoint:
  assumes "fresh_files s" and "opened_for_line s r sc"
  shows "(open_files s \<union> set (files_to_close r)) - set (files_to_close r) = open_files s"
proof -
  have "open_files s \<inter> set (files_to_close r) = {}"
    using assms by (fastforce simp: fresh_files_def opened_for_line_def)
  then show ?thesis by blast
qed

lemma fresh_files_later:
  "fresh_files s \<Longrightarrow> open_files s' = open_files s \<Longrightarrow> next_file s \<le> next_file s' \<Longrightarrow>
     fresh_files s'"
  by (fastforce simp: fresh_files_def)

lemma opened_for_line_close:
  assumes "fresh_files s" and "opened_for_line s r sc"
  shows "restored s (close_all (files_to_close r) sc) \<and>
         fresh_files (close_all (files_to_close r) sc) \<and>
         run_events (close_all (files_to_close r) sc) = run_events s"
proof -
  let ?s' = "close_all (files_to_close r) sc"
  have o: "open_files ?s' = open_files s"
    using opened_for_line_disjoint [OF assms] assms(2)
    by (simp add: close_all_effect opened_for_line_def)
  have "next_file s \<le> next_file ?s'"
    using assms(2) by (simp add: close_all_effect opened_for_line_def)
  then have "fresh_files ?s'"
    using fresh_files_later [OF assms(1) o] by simp
  then show ?thesis
    using o assms(2) by (simp add: restored_def close_all_effect opened_for_line_def)
qed

lemma opened_for_line_run:
  assumes "fresh_files s" and "opened_for_line s r sc"
    and "run_redirected os cmd_name args r sc = (c, s')"
  shows "restored s s' \<and> fresh_files s'"
proof -
  from run_redirected_effect [OF assms(3)]
  have e: "streams s' = streams sc" "open_files s' = open_files sc - set (files_to_close r)"
    "next_file s' = next_file sc"
    by simp_all
  have o: "open_files s' = open_files s"
    using opened_for_line_disjoint [OF assms(1,2)] assms(2) e(2)
    by (simp add: opened_for_line_def)
  have "next_file s \<le> next_file s'"
    using assms(2) e(3) by (simp add: opened_for_line_def)
  then have "fresh_files s'"
    using fresh_files_later [OF assms(1) o] by simp
  then show ?thesis
    using o e(1) assms(2) by (simp add: restored_def opened_for_line_def)
qed

text \<open>
  The body of the read loop, with the three blocks and the outcome of each named.
\<close>

lemma process_tokens_cases:
  assumes "process_tokens os (cmd_name # args) s = (c, s')"
    and "parse_redirections args = Inr p"
  obtains
    (fail) r sc where "opened_for_line s r sc" "c = Continue" "s' = close_all (files_to_close r) sc"
      "open_fails os (p_stdout p) \<or> open_fails os (p_stderr p) \<or> open_fails os (p_stdin p)"
  | (run) r sc where "opened_for_line s r sc"
      "run_redirected os cmd_name (p_clean p) r sc = (c, s')"
      "\<not> open_fails os (p_stdout p)" "\<not> open_fails os (p_stderr p)"
      "\<not> open_fails os (p_stdin p)"
proof -
  let ?r0 = "\<lparr>contexts = [], files_to_close = []\<rparr>"
  let ?s0 = "print_all (p_printed p) s"
  have i0: "opened_for_line s ?r0 ?s0" by (rule opened_for_line_start)
  obtain ok1 r1 s1 where o1: "open_redirection os Stdout (p_stdout p) ?r0 ?s0 = (ok1, r1, s1)"
    by (cases "open_redirection os Stdout (p_stdout p) ?r0 ?s0") auto
  obtain ok2 r2 s2 where o2: "open_redirection os Stderr (p_stderr p) r1 s1 = (ok2, r2, s2)"
    by (cases "open_redirection os Stderr (p_stderr p) r1 s1") auto
  obtain ok3 r3 s3 where o3: "open_redirection os Stdin (p_stdin p) r2 s2 = (ok3, r3, s3)"
    by (cases "open_redirection os Stdin (p_stdin p) r2 s2") auto
  have i1: "opened_for_line s r1 s1" using opened_for_line_open [OF i0 o1] .
  have i2: "opened_for_line s r2 s2" using opened_for_line_open [OF i1 o2] .
  have i3: "opened_for_line s r3 s3" using opened_for_line_open [OF i2 o3] .
  have k1: "ok1 \<longleftrightarrow> \<not> open_fails os (p_stdout p)"
    using open_redirection_effect [OF o1] by simp
  have k2: "ok2 \<longleftrightarrow> \<not> open_fails os (p_stderr p)"
    using open_redirection_effect [OF o2] by simp
  have k3: "ok3 \<longleftrightarrow> \<not> open_fails os (p_stdin p)"
    using open_redirection_effect [OF o3] by simp
  have pt: "(c, s') =
      (if \<not> ok1 then (Continue, close_all (files_to_close r1) s1)
       else if \<not> ok2 then (Continue, close_all (files_to_close r2) s2)
       else if \<not> ok3 then (Continue, close_all (files_to_close r3) s3)
       else run_redirected os cmd_name (p_clean p) r3 s3)"
    using assms(1) by (auto simp: process_tokens_def assms(2) o1 o2 o3 split: if_splits)
  show thesis
  proof (cases "ok1 \<and> ok2 \<and> ok3")
    case True
    with pt have "run_redirected os cmd_name (p_clean p) r3 s3 = (c, s')" by simp
    with True i3 k1 k2 k3 show thesis by (auto intro: run)
  next
    case False
    then consider "\<not> ok1" | "ok1" "\<not> ok2" | "ok1" "ok2" "\<not> ok3" by blast
    then show thesis
    proof cases
      case 1
      with pt have "c = Continue" "s' = close_all (files_to_close r1) s1" by simp_all
      with 1 i1 k1 show thesis by (auto intro: fail)
    next
      case 2
      with pt have "c = Continue" "s' = close_all (files_to_close r2) s2" by simp_all
      with 2 i2 k2 show thesis by (auto intro: fail)
    next
      case 3
      with pt have "c = Continue" "s' = close_all (files_to_close r3) s3" by simp_all
      with 3 i3 k3 show thesis by (auto intro: fail)
    qed
  qed
qed

lemma restored_refl: "restored s s"
  by (simp add: restored_def)

lemma restored_trans: "restored s s1 \<Longrightarrow> restored s1 s2 \<Longrightarrow> restored s s2"
  by (simp add: restored_def)

lemma restored_emit: "restored s (emit e s) \<and> (fresh_files s \<longrightarrow> fresh_files (emit e s))"
  by (simp add: restored_def streams_emit emit_fields fresh_files_def)

lemma restored_print: "restored s (print x s) \<and> (fresh_files s \<longrightarrow> fresh_files (print x s))"
  by (simp add: print_def restored_emit)

lemma process_tokens_restored:
  assumes "fresh_files s" and "process_tokens os tokens s = (c, s')"
  shows "restored s s' \<and> fresh_files s'"
proof (cases tokens)
  case Nil
  with assms show ?thesis by (simp add: process_tokens_def restored_refl)
next
  case (Cons cmd_name args)
  have p: "parse_redirections args = Inr (finish_parse (scanned args))"
    by (rule parse_redirections_scanned)
  from assms(2) Cons have pt: "process_tokens os (cmd_name # args) s = (c, s')"
    by simp
  from pt p show ?thesis
  proof (cases rule: process_tokens_cases)
    case (fail r sc)
    then show ?thesis using opened_for_line_close [OF assms(1)] by blast
  next
    case (run r sc)
    then show ?thesis using opened_for_line_run [OF assms(1)] by blast
  qed
qed

lemma main_loop_restored:
  "fresh_files s \<Longrightarrow> main_loop os evs s = (r, s') \<Longrightarrow> restored s s'"
proof (induction evs arbitrary: s)
  case Nil
  let ?s1 = "emit (Write (sys_stdout s) ''$ '') s"
  have "restored s ?s1" using restored_emit by blast
  moreover have "restored ?s1 (print [] ?s1)" using restored_print by blast
  ultimately show ?case using Nil restored_trans by auto
next
  case (Cons ev evs)
  let ?s1 = "emit (Write (sys_stdout s) ''$ '') s"
  have r1: "restored s ?s1" and f1: "fresh_files ?s1"
    using restored_emit Cons.prems(1) by blast+
  show ?case
  proof (cases ev)
    case KeyboardInterrupt
    have "restored ?s1 (print [] ?s1)" "fresh_files (print [] ?s1)"
      using restored_print f1 by blast+
    moreover from Cons.prems(2) KeyboardInterrupt
    have "main_loop os evs (print [] ?s1) = (r, s')" by (simp add: Let_def)
    ultimately show ?thesis using Cons.IH r1 restored_trans by blast
  next
    case Blank
    with Cons.prems(2) have "main_loop os evs ?s1 = (r, s')" by (simp add: Let_def)
    then show ?thesis using Cons.IH [OF f1] r1 restored_trans by blast
  next
    case (ShlexError msg)
    have "restored ?s1 (print (''parse error: '' @ msg) ?s1)"
      "fresh_files (print (''parse error: '' @ msg) ?s1)"
      using restored_print f1 by blast+
    moreover from Cons.prems(2) ShlexError
    have "main_loop os evs (print (''parse error: '' @ msg) ?s1) = (r, s')" by (simp add: Let_def)
    ultimately show ?thesis using Cons.IH r1 restored_trans by blast
  next
    case (Tokens tokens)
    obtain c s2 where pt: "process_tokens os tokens ?s1 = (c, s2)"
      by (cases "process_tokens os tokens ?s1")
    have r2: "restored ?s1 s2" and f2: "fresh_files s2"
      using process_tokens_restored [OF f1 pt] by simp_all
    show ?thesis
    proof (cases c)
      case Continue
      with Cons.prems(2) Tokens pt have "main_loop os evs s2 = (r, s')" by (simp add: Let_def)
      then show ?thesis using Cons.IH [OF f2] r1 r2 restored_trans by blast
    next
      case Break
      with Cons.prems(2) Tokens pt have "s' = s2" by (simp add: Let_def)
      then show ?thesis using r1 r2 restored_trans by blast
    next
      case (Uncaught e)
      with Cons.prems(2) Tokens pt have "s' = s2" by (simp add: Let_def)
      then show ?thesis using r1 r2 restored_trans by blast
    qed
  qed
qed

text \<open>
  C4. Whatever path one command line takes (the command returns, a builtin reports
  an error, a redirection target fails to open, or \<^verbatim>\<open>exit\<close> is requested), when
  its handling ends the three streams are bound as before the line and every file
  object opened for it is closed; so they are when the read loop ends.
\<close>

theorem redirection_undone_on_every_path:
  assumes "fresh_files s"
  shows "(\<forall>tokens c s'. process_tokens os tokens s = (c, s') \<longrightarrow> restored s s') \<and>
         (\<forall>evs r s'. main_loop os evs s = (r, s') \<longrightarrow> restored s s')"
  using process_tokens_restored [OF assms] main_loop_restored [OF assms] by blast

theorem redirection_undone_on_every_path_witness:
  "restored shell0 (snd (process_tokens os0 [''exit'', ''>'', ''f'', ''2>g''] shell0)) \<and>
   restored shell0
     (snd (main_loop os0 [Tokens [''echo'', ''a'', ''>'', ''f''], Tokens [''exit'']] shell0))"
proof -
  have h: "fresh_files shell0"
    by (simp add: fresh_files_def shell0_def)
  show ?thesis
    using redirection_undone_on_every_path [OF h, of os0] by (metis prod.collapse)
qed

text \<open>
  C10. When the target of one of the parsed specs cannot be opened, the line ends
  without the command being executed and without any stream being rebound, and the
  files opened for the line before the failure are closed again.
\<close>

theorem failed_open_skips_command:
  assumes "fresh_files s" and "parse_redirections args = Inr p"
    and "open_fails os (p_stdout p) \<or> open_fails os (p_stderr p) \<or> open_fails os (p_stdin p)"
  shows "\<exists>s'. process_tokens os (cmd_name # args) s = (Continue, s') \<and>
              run_events s' = run_events s \<and> restored s s'"
proof -
  obtain c s' where pt: "process_tokens os (cmd_name # args) s = (c, s')"
    by (cases "process_tokens os (cmd_name # args) s")
  from pt assms(2) show ?thesis
  proof (cases rule: process_tokens_cases)
    case (fail r sc)
    with pt opened_for_line_close [OF assms(1) fail(1)] show ?thesis by simp
  next
    case (run r sc)
    with assms(3) show ?thesis by blast
  qed
qed

theorem failed_open_skips_command_witness:
  "\<exists>s'. process_tokens os0 [''echo'', ''hi'', ''>'', ''f'', ''2>/nodir/f''] shell0 = (Continue, s') \<and>
        run_events s' = run_events shell0 \<and> restored shell0 s'"
proof -
  have h1: "fresh_files shell0"
    by (simp add: fresh_files_def shell0_def)
  have h2: "parse_redirections [''hi'', ''>'', ''f'', ''2>/nodir/f''] =
      Inr \<lparr>p_clean = [''hi''], p_stdout = Some (Some ''f'', ''w''),
           p_stderr = Some (Some ''/nodir/f'', ''w''), p_stdin = None, p_printed = []\<rparr>"
    by (simp add: parse_redirections_scanned scanned_def finish_parse_def spec_operator_def
          startswith_def last_wins_def specs_for_def)
  have h3: "open_fails os0 (Some (Some ''/nodir/f'', ''w''))"
    by (simp add: open_fails_def os0_def)
  show ?thesis
    using failed_open_skips_command [OF h1 h2, of os0 "''echo''"] h3 by simp
qed

end
